theory Spec2Isabelle
  imports Main "HOL-Library.Word" "HOL-Library.Signed_Division"
begin

section \<open>Common data model\<close>

text \<open>
  Go's \<open>int64\<close> is a 64-bit word: \<open>+\<close>, \<open>-\<close> and \<open>*\<close> wrap around, comparisons
  read the word as two's complement (\<open>\<le>s\<close>, \<open><s\<close>), and \<open>/\<close> and \<open>%\<close> truncate towards
  zero (\<open>sdiv\<close>, \<open>smod\<close>). A Go \<open>string\<close> and a \<open>[]byte\<close> are both sequences of bytes;
  HOL's \<open>char\<close> is a byte.
\<close>

type_synonym int64 = "64 word"
type_synonym bytes = "char list"

text \<open>A call either returns or panics; a panic carries what the runtime reports.\<close>

datatype panic = NilDereference | DivideByZero | IndexOutOfRange | PanicErr string

datatype 'a outcome = Returns 'a | Panics panic

section \<open>core/contract: Decode and DecodeContract\<close>

text \<open>
  The generated protobuf message \<open>Contract\<close>. \<open>proto.Unmarshal(buf, msg)\<close> is a library
  function: it resets the message, fills it from the buffer and returns an error or nil.
  It is a parameter \<open>U\<close> of the model: \<open>U buf\<close> is the message after the call together
  with the error (\<open>None\<close> for nil).
\<close>

record Contract =
  ID :: string
  Code :: string
  Info :: string

type_synonym unmarshal = "bytes \<Rightarrow> Contract \<times> string option"

text \<open>
  \<open>func (c *Contract) Decode(str string) error\<close>: the receiver is updated in place, so the
  model returns the receiver after the call and the error.
\<close>

definition Decode :: "unmarshal \<Rightarrow> Contract \<Rightarrow> bytes \<Rightarrow> Contract \<times> string option" where
  "Decode U c str =
     (case U str of
        (c1, Some err) \<Rightarrow> (c1, Some err)
      | (c1, None) \<Rightarrow> (c1, None))"

text \<open>
  \<open>func DecodeContract(str string) *Contract\<close>: unmarshals into a local, panics on error,
  and ends with \<open>return nil\<close>. The result is a pointer: \<open>None\<close> is nil.
\<close>

definition DecodeContract :: "unmarshal \<Rightarrow> bytes \<Rightarrow> Contract option outcome" where
  "DecodeContract U str =
     (case U str of
        (c, Some err) \<Rightarrow> Panics (PanicErr err)
      | (c, None) \<Rightarrow> Returns None)"

section \<open>vm/v8vm: dbValToString\<close>

text \<open>
  \<open>common.Fixed\<close> as the tests build it: \<open>Fixed{Value, Decimal, Err}\<close>.
\<close>

record Fixed =
  Value :: int64
  Decimal :: int
  Err :: "string option"

text \<open>
  The argument of \<open>dbValToString\<close> is an \<open>interface{}\<close>: a value tagged with its dynamic
  type. The type switch tells \<open>int64\<close>, \<open>string\<close>, \<open>bool\<close> and \<open>[]byte\<close> apart from
  everything else; \<open>FixedVal\<close> is a \<open>*common.Fixed\<close> and \<open>OtherVal\<close> stands for a value of
  any further dynamic type (a \<open>float64\<close>, a nil interface, ...).
\<close>

datatype dbval =
    Int64Val int64
  | StringVal string
  | BoolVal bool
  | BytesVal bytes
  | FixedVal Fixed
  | OtherVal

datatype v8error = ErrInvalidDbValType

text \<open>\<open>strconv.FormatInt(v, 10)\<close> and \<open>strconv.FormatBool\<close> of the Go library.\<close>

definition digit10 :: "nat \<Rightarrow> char" where
  "digit10 d = ''0123456789'' ! d"

fun digits10 :: "nat \<Rightarrow> string" where
  "digits10 n =
     (if n < 10 then [digit10 n]
      else digits10 (n div 10) @ [digit10 (n mod 10)])"

definition FormatInt10 :: "int64 \<Rightarrow> string" where
  "FormatInt10 v =
     (if sint v < 0 then CHR ''-'' # digits10 (nat (- sint v)) else digits10 (nat (sint v)))"

definition FormatBool :: "bool \<Rightarrow> string" where
  "FormatBool b = (if b then ''true'' else ''false'')"

text \<open>
  \<open>func dbValToString(val interface{}) (string, error)\<close>; the error is \<open>None\<close> for nil.
\<close>

fun dbValToString :: "dbval \<Rightarrow> string \<times> v8error option" where
  "dbValToString (Int64Val v) = (FormatInt10 v, None)"
| "dbValToString (StringVal v) = (v, None)"
| "dbValToString (BoolVal v) = (FormatBool v, None)"
| "dbValToString (BytesVal v) = (v, None)"
| "dbValToString _ = ([], Some ErrInvalidDbValType)"

text \<open>The value set the specification names: the closed sum of five types.\<close>

fun in_closed_sum :: "dbval \<Rightarrow> bool" where
  "in_closed_sum OtherVal = False"
| "in_closed_sum _ = True"

fun is_fixed :: "dbval \<Rightarrow> bool" where
  "is_fixed (FixedVal f) = True"
| "is_fixed _ = False"

section \<open>consensus/pob: the witness schedule, watermarks, block verification\<close>

text \<open>
  Go's \<open>/\<close> and \<open>%\<close> on \<open>int64\<close>: the quotient truncates towards zero and the remainder
  has the sign of the dividend. Division by zero panics; the callers below test for it.
\<close>

definition go_div :: "int64 \<Rightarrow> int64 \<Rightarrow> int64" where
  "go_div a b = word_of_int (sint a sdiv sint b)"

definition go_mod :: "int64 \<Rightarrow> int64 \<Rightarrow> int64" where
  "go_mod a b = word_of_int (sint a smod sint b)"

definition MaxInt64 :: int64 where
  "MaxInt64 = 0x7FFFFFFFFFFFFFFF"

definition MinInt64 :: int64 where
  "MinInt64 = 0x8000000000000000"

text \<open>
  A Go map from \<open>string\<close> or \<open>int64\<close> to \<open>int64\<close>: reading a key that is absent yields 0.
\<close>

definition map_get :: "('k \<rightharpoonup> int64) \<Rightarrow> 'k \<Rightarrow> int64" where
  "map_get m k = (case m k of None \<Rightarrow> 0 | Some v \<Rightarrow> v)"

text \<open>
  \<open>StaticProperty\<close>: the number of witnesses, and the witness list and the per-witness
  watermark that \<open>verifyBlock\<close> and \<open>updateWaterMark\<close> read from it.
\<close>

record StaticProperty =
  NumberOfWitnesses :: int64
  WitnessList :: "string list"
  Watermark :: "string \<rightharpoonup> int64"

definition second2nanosecond :: int64 where
  "second2nanosecond = 1000000000"

text \<open>
  \<open>witnessOfSlot\<close>: \<open>index := slot % staticProperty.NumberOfWitnesses\<close> panics when the
  number of witnesses is 0, and \<open>witnessList[index]\<close> panics when the index is negative
  or not below the length of the list.
\<close>

definition witnessOfSlot :: "StaticProperty \<Rightarrow> int64 \<Rightarrow> string list \<Rightarrow> string outcome" where
  "witnessOfSlot sp slot witnessList =
     (if NumberOfWitnesses sp = 0 then Panics DivideByZero
      else let index = go_mod slot (NumberOfWitnesses sp)
           in if index <s 0 \<or> int (length witnessList) \<le> sint index then Panics IndexOutOfRange
              else Returns (witnessList ! nat (sint index)))"

text \<open>
  \<open>common.SlotLength\<close>, the slot length in seconds, is a variable of package \<open>common\<close>;
  it is the parameter \<open>SlotLength\<close>.
\<close>

definition witnessOfSec :: "StaticProperty \<Rightarrow> int64 \<Rightarrow> int64 \<Rightarrow> string list \<Rightarrow> string outcome" where
  "witnessOfSec sp SlotLength sec witnessList =
     (if SlotLength = 0 then Panics DivideByZero
      else witnessOfSlot sp (go_div sec SlotLength) witnessList)"

definition witnessOfNanoSec :: "StaticProperty \<Rightarrow> int64 \<Rightarrow> int64 \<Rightarrow> string list \<Rightarrow> string outcome" where
  "witnessOfNanoSec sp SlotLength nanosec witnessList =
     witnessOfSec sp SlotLength (go_div nanosec second2nanosecond) witnessList"

definition slotOfSec :: "int64 \<Rightarrow> int64 \<Rightarrow> int64 outcome" where
  "slotOfSec SlotLength sec =
     (if SlotLength = 0 then Panics DivideByZero else Returns (go_div sec SlotLength))"

text \<open>
  Block heads, transactions and blocks, with the fields the verified functions read. The
  creation time of a transaction, \<open>Tx.Time\<close> in the source, is \<open>TxTime\<close> here, and the
  head of the block that a cache node embeds, \<open>node.Head\<close>, is \<open>NodeHead\<close>: a record
  field is a constant, and \<open>Time\<close> and \<open>Head\<close> name the fields of the block head and of
  the block. \<open>Payload\<close> stands for the rest of a transaction (actions, gas, signatures),
  which no function below reads but a hash may depend on.
\<close>

record BlockHead =
  Number :: int64
  Witness :: string
  Time :: int64

record Tx =
  TxTime :: int64
  Delay :: int64
  ReferredTx :: bytes
  Payload :: bytes

record Block =
  Head :: BlockHead
  Txs :: "Tx list"

text \<open>
  A block-cache node lives on the heap and is named by its address; \<open>Parent\<close> is a pointer
  (\<open>None\<close> is nil). The heap gives the node at every address.
\<close>

type_synonym addr = nat

record BlockCacheNode =
  NodeHead :: BlockHead
  ConfirmUntil :: int64
  Parent :: "addr option"

type_synonym heap = "addr \<Rightarrow> BlockCacheNode"

text \<open>
  \<open>updateWaterMark(node)\<close> writes the node's \<open>ConfirmUntil\<close> and the watermark of the
  node's witness; the model returns the static property and the node after the call.
\<close>

definition updateWaterMark :: "StaticProperty \<Rightarrow> BlockCacheNode \<Rightarrow> StaticProperty \<times> BlockCacheNode" where
  "updateWaterMark sp node =
     (let node' = node\<lparr>ConfirmUntil := map_get (Watermark sp) (Witness (NodeHead node))\<rparr>
      in if map_get (Watermark sp) (Witness (NodeHead node')) \<le>s Number (NodeHead node')
         then (sp\<lparr>Watermark := (Watermark sp)(Witness (NodeHead node') \<mapsto> Number (NodeHead node') + 1)\<rparr>, node')
         else (sp, node'))"

text \<open>Linking a sequence of nodes: \<open>updateWaterMark\<close> on each, in order.\<close>

fun linkAll :: "StaticProperty \<Rightarrow> BlockCacheNode list \<Rightarrow> StaticProperty \<times> BlockCacheNode list" where
  "linkAll sp [] = (sp, [])"
| "linkAll sp (n # ns) =
     (case updateWaterMark sp n of
        (sp', n') \<Rightarrow> (case linkAll sp' ns of (sp'', ns') \<Rightarrow> (sp'', n' # ns')))"

text \<open>
  \<open>calculateConfirm(node, root)\<close>. The loop \<open>for node != root\<close> compares pointers and
  follows \<open>node.Parent\<close>; reading a field of a nil node panics, and a parent chain that
  never meets \<open>root\<close> or nil keeps the loop running: the loop is a partial function, and
  \<open>None\<close> is the run that does not return. \<open>confirmUntilMap\<close> is a Go map from
  \<open>int64\<close> to \<open>int64\<close>.
\<close>

partial_function (option) confirmLoop ::
  "heap \<Rightarrow> int64 \<Rightarrow> int64 \<Rightarrow> (int64 \<rightharpoonup> int64) \<Rightarrow> addr option \<Rightarrow> addr option
    \<Rightarrow> addr option outcome option" where
  "confirmLoop h confirmLimit confirmNum confirmUntilMap node root =
     (if node = root then Some (Returns None)
      else case node of
        None \<Rightarrow> Some (Panics NilDereference)
      | Some a \<Rightarrow>
          (let n = h a;
               c = ConfirmUntil n \<le>s Number (NodeHead n);
               confirmNum1 = (if c then confirmNum + 1 else confirmNum);
               m1 = (if c then confirmUntilMap(ConfirmUntil n \<mapsto> map_get confirmUntilMap (ConfirmUntil n) + 1)
                     else confirmUntilMap)
           in if confirmLimit \<le>s confirmNum1 then Some (Returns (Some a))
              else confirmLoop h confirmLimit (confirmNum1 - map_get m1 (Number (NodeHead n))) m1
                     (Parent n) root))"

definition confirmLimitOf :: "StaticProperty \<Rightarrow> int64" where
  "confirmLimitOf sp = go_div (NumberOfWitnesses sp * 2) 3 + 1"

definition calculateConfirm ::
  "StaticProperty \<Rightarrow> heap \<Rightarrow> addr option \<Rightarrow> addr option \<Rightarrow> addr option outcome option" where
  "calculateConfirm sp h node root =
     (let confirmLimit = confirmLimitOf sp
      in case node of
           None \<Rightarrow> Some (Panics NilDereference)
         | Some a \<Rightarrow>
             (case root of
                None \<Rightarrow> Some (Panics NilDereference)
              | Some r \<Rightarrow> confirmLoop h confirmLimit 0 Map.empty node root))"

text \<open>
  \<open>updateLib(node, bc)\<close>: the block cache belongs to package \<open>blockcache\<close>; its
  \<open>LinkedRoot\<close> and \<open>Flush\<close> are parameters, and \<open>'bc\<close> is the state of the cache.
\<close>

definition updateLib ::
  "('bc \<Rightarrow> addr option) \<Rightarrow> (addr \<Rightarrow> 'bc \<Rightarrow> 'bc) \<Rightarrow> StaticProperty \<Rightarrow> heap \<Rightarrow> addr option \<Rightarrow> 'bc
    \<Rightarrow> 'bc outcome option" where
  "updateLib LinkedRoot Flush sp h node bc =
     (case calculateConfirm sp h node (LinkedRoot bc) of
        None \<Rightarrow> None
      | Some (Panics p) \<Rightarrow> Some (Panics p)
      | Some (Returns None) \<Rightarrow> Some (Returns bc)
      | Some (Returns (Some confirmedNode)) \<Rightarrow> Some (Returns (Flush confirmedNode bc)))"

text \<open>
  The walk as the specification words it, over the list of nodes from \<open>node\<close> up to, and
  without, \<open>root\<close>: \<open>root\<close> is an ancestor of \<open>node\<close> when the parent pointers lead from
  \<open>node\<close> to \<open>root\<close>, and \<open>ancestorPath\<close> collects the nodes on the way.
\<close>

inductive ancestorPath :: "heap \<Rightarrow> addr \<Rightarrow> addr \<Rightarrow> (addr \<times> BlockCacheNode) list \<Rightarrow> bool" where
  ancestorPath_root: "ancestorPath h r r []"
| ancestorPath_step:
    "a \<noteq> r \<Longrightarrow> Parent (h a) = Some p \<Longrightarrow> ancestorPath h p r ns
      \<Longrightarrow> ancestorPath h a r ((a, h a) # ns)"

definition counted :: "BlockCacheNode \<Rightarrow> bool" where
  "counted n \<longleftrightarrow> ConfirmUntil n \<le>s Number (NodeHead n)"

text \<open>
  \<open>confirmWalk limit seen cnt ns\<close>: \<open>seen\<close> are the nodes walked so far, \<open>cnt\<close> the running
  count. A node is counted when its \<open>ConfirmUntil\<close> is at most its number; the walk stops
  at the first node where the count reaches the limit; on descending past a node, the
  contributions counted so far whose \<open>ConfirmUntil\<close> equals that node's number are
  subtracted.
\<close>

fun confirmWalk :: "int64 \<Rightarrow> BlockCacheNode list \<Rightarrow> int64 \<Rightarrow> (addr \<times> BlockCacheNode) list \<Rightarrow> addr option" where
  "confirmWalk limit seen cnt [] = None"
| "confirmWalk limit seen cnt ((a, n) # rest) =
     (let seen1 = seen @ [n];
          cnt1 = cnt + (if counted n then 1 else 0)
      in if limit \<le>s cnt1 then Some a
         else confirmWalk limit seen1
                (cnt1 - of_nat (length (filter (\<lambda>x. counted x \<and> ConfirmUntil x = Number (NodeHead n)) seen1)))
                rest)"

text \<open>
  The same walk without recursion. The running count at the \<open>i\<close>-th walked node is the
  number of counted nodes among the first \<open>i + 1\<close>, minus, for each node \<open>k\<close> walked
  before, the number of counted nodes up to and including \<open>k\<close> whose \<open>ConfirmUntil\<close> is
  the number of \<open>k\<close>; the result is the first walked node whose running count reaches the
  limit.
\<close>

definition runningCount :: "BlockCacheNode list \<Rightarrow> nat \<Rightarrow> int64" where
  "runningCount nodes i =
     of_nat (length (filter counted (take (Suc i) nodes)))
     - (\<Sum>k<i. of_nat (length (filter (\<lambda>x. counted x \<and> ConfirmUntil x = Number (NodeHead (nodes ! k)))
                                  (take (Suc k) nodes))))"

definition confirmFirst :: "int64 \<Rightarrow> (addr \<times> BlockCacheNode) list \<Rightarrow> addr option" where
  "confirmFirst limit ns =
     map_option (\<lambda>i. fst (ns ! i))
       (List.find (\<lambda>i. limit \<le>s runningCount (map snd ns) i) [0..<length ns])"

text \<open>
  \<open>verifyBlock\<close>. The errors of package \<open>pob\<close> are values of their own; an error made by
  another package (\<open>cverifier\<close>, \<open>tx\<close>, \<open>verifier\<close>, the chain) is \<open>Foreign\<close> with its
  message, and \<open>fmt.Errorf\<close> makes a new error from a message. The unexported errors of
  \<open>pob\<close> cannot be returned by another package.
\<close>

datatype error =
    ErrWitness
  | ErrSignature
  | ErrTxDup
  | ErrTxSignature
  | ErrHeadHash
  | Errorf string
  | Foreign string

text \<open>
  The result of \<open>txPool.ExistTxs\<close>: the source names \<open>txpool.FoundChain\<close> and
  \<open>txpool.FoundPending\<close>; \<open>NotFound\<close> is every other value.
\<close>

datatype FRet = NotFound | FoundPending | FoundChain

text \<open>
  What \<open>verifyBlock\<close> calls in other packages: \<open>cverifier.VerifyBlockHead\<close>,
  \<open>txPool.ExistTxs\<close>, \<open>t.Hash\<close>, \<open>t.VerifySelf\<close>, \<open>t.IsDefer\<close>, \<open>chain.GetTx\<close>,
  \<open>t.VerifyDefer\<close> and \<open>verifier.Verify\<close>. An error result is the message of the error,
  \<open>None\<close> is nil.
\<close>

record verifyEnv =
  VerifyBlockHead :: "Block \<Rightarrow> Block \<Rightarrow> Block \<Rightarrow> string option"
  ExistTxs :: "bytes \<Rightarrow> Block \<Rightarrow> FRet"
  TxHash :: "Tx \<Rightarrow> bytes"
  VerifySelf :: "Tx \<Rightarrow> string option"
  IsDefer :: "Tx \<Rightarrow> bool"
  GetTx :: "bytes \<Rightarrow> string + Tx"
  VerifyDefer :: "Tx \<Rightarrow> Tx \<Rightarrow> string option"
  Verify :: "Block \<Rightarrow> Block \<Rightarrow> string option"

text \<open>The body of the loop over \<open>blk.Txs\<close> for an index other than 0.\<close>

definition txCheck :: "verifyEnv \<Rightarrow> Block \<Rightarrow> Tx \<Rightarrow> error option" where
  "txCheck env parent t =
     (let exist = ExistTxs env (TxHash env t) parent
      in if exist = FoundChain then Some ErrTxDup
         else if exist \<noteq> FoundPending then
           (case VerifySelf env t of
              Some err \<Rightarrow> Some ErrTxSignature
            | None \<Rightarrow>
                if IsDefer env t then
                  (case GetTx env (ReferredTx t) of
                     Inl err \<Rightarrow> Some (Errorf (''get referred tx error, '' @ err))
                   | Inr referredTx \<Rightarrow>
                       (case VerifyDefer env t referredTx of
                          Some err \<Rightarrow> Some (Foreign err)
                        | None \<Rightarrow> None))
                else None)
         else None)"

text \<open>\<open>for i, t := range blk.Txs\<close>, from index \<open>i\<close> on.\<close>

fun txLoop :: "verifyEnv \<Rightarrow> Block \<Rightarrow> nat \<Rightarrow> Tx list \<Rightarrow> error option" where
  "txLoop env parent i [] = None"
| "txLoop env parent i (t # ts) =
     (if i = 0 then txLoop env parent (Suc i) ts
      else case txCheck env parent t of
             Some err \<Rightarrow> Some err
           | None \<Rightarrow> txLoop env parent (Suc i) ts)"

text \<open>
  \<open>verifyBlock\<close> calls \<open>witnessOfNanoSec(blk.Head.Time)\<close>, which reads the witness list of
  the static property.
\<close>

definition verifyBlock ::
  "verifyEnv \<Rightarrow> StaticProperty \<Rightarrow> int64 \<Rightarrow> Block \<Rightarrow> Block \<Rightarrow> Block \<Rightarrow> error option outcome" where
  "verifyBlock env sp SlotLength blk parent lib =
     (case VerifyBlockHead env blk parent lib of
        Some err \<Rightarrow> Returns (Some (Foreign err))
      | None \<Rightarrow>
          (case witnessOfNanoSec sp SlotLength (Time (Head blk)) (WitnessList sp) of
             Panics p \<Rightarrow> Panics p
           | Returns w \<Rightarrow>
               if w \<noteq> Witness (Head blk) then Returns (Some ErrWitness)
               else (case txLoop env parent 0 (Txs blk) of
                       Some err \<Rightarrow> Returns (Some err)
                     | None \<Rightarrow> Returns (map_option Foreign (Verify env blk parent)))))"

text \<open>
  The invariant of the loop of \<open>calculateConfirm\<close>: \<open>confirmUntilMap\<close> holds, for every
  key, the number of counted nodes walked so far whose \<open>ConfirmUntil\<close> is that key.
\<close>

definition map_counts :: "(int64 \<rightharpoonup> int64) \<Rightarrow> BlockCacheNode list \<Rightarrow> bool" where
  "map_counts m seen \<longleftrightarrow>
     (\<forall>k. map_get m k = of_nat (length (filter (\<lambda>x. counted x \<and> ConfirmUntil x = k) seen)))"

section \<open>core/txpool: the defer server\<close>

text \<open>
  \<open>bytes.Compare\<close> of the Go library: the lexicographic order of two byte strings, as
  -1, 0 or 1.
\<close>

fun bytesCompare :: "bytes \<Rightarrow> bytes \<Rightarrow> int" where
  "bytesCompare [] [] = 0"
| "bytesCompare [] (y # ys) = - 1"
| "bytesCompare (x # xs) [] = 1"
| "bytesCompare (x # xs) (y # ys) =
     (if (of_char x :: nat) < of_char y then - 1
      else if (of_char y :: nat) < of_char x then 1
      else bytesCompare xs ys)"

text \<open>
  \<open>compareDeferTx(a, b)\<close>. \<open>Tx.Hash\<close> belongs to package \<open>tx\<close>: it is the
  parameter \<open>H\<close>. The result is a Go \<open>int\<close>, 64 bits wide on the platforms the node runs
  on, so \<open>int(txa.Time - txb.Time)\<close> is the wrapped difference read as a signed number.
\<close>

definition compareDeferTx :: "(Tx \<Rightarrow> bytes) \<Rightarrow> Tx \<Rightarrow> Tx \<Rightarrow> int" where
  "compareDeferTx H txa txb =
     (if TxTime txa = TxTime txb then bytesCompare (H txa) (H txb)
      else sint (TxTime txa - TxTime txb))"


fun treeRemove :: "(Tx \<Rightarrow> Tx \<Rightarrow> int) \<Rightarrow> Tx \<Rightarrow> Tx list \<Rightarrow> Tx list" where
  "treeRemove cmp k [] = []"
| "treeRemove cmp k (x # xs) = (if cmp k x = 0 then xs else x # treeRemove cmp k xs)"

text \<open>
  The state of a \<open>DeferServer\<close>: the pool, the next schedule time, and how often the
  ticker has been restarted.
\<close>

record DeferServer =
  pool :: "Tx list"
  nextScheduleTime :: int64
  restarts :: nat



definition DelDeferTx :: "(Tx \<Rightarrow> bytes) \<Rightarrow> DeferServer \<Rightarrow> Tx \<Rightarrow> DeferServer" where
  "DelDeferTx H d deferTx =
     (let idx = \<lparr>TxTime = TxTime deferTx, Delay = 0, ReferredTx = ReferredTx deferTx, Payload = []\<rparr>
      in d\<lparr>pool := treeRemove (compareDeferTx H) idx (pool d)\<rparr>)"

text \<open>
  The result of \<open>txpool.AddDefertx\<close>: nil, one of the three errors the ticker tells
  apart, or another error.
\<close>

datatype addDeferResult = AddNil | ErrCacheFull | ErrDupChainTx | ErrDupPendingTx | ErrAddOther string

definition removable :: "addDeferResult \<Rightarrow> bool" where
  "removable err \<longleftrightarrow> err = AddNil \<or> err = ErrDupChainTx \<or> err = ErrDupPendingTx"

text \<open>
  One pass of \<open>deferTicker\<close> after the timer fires, run without interference from other
  goroutines. The iterator walks the keys the tree holds when the pass starts.
  \<open>AddDefertx\<close> belongs to the transaction pool, whose state is \<open>'p\<close>; \<open>now k\<close> is the
  \<open>k\<close>-th reading of \<open>time.Now().UnixNano()\<close>. The loop leaves with \<open>ok\<close>: it is false
  when the iterator is exhausted. The last component logs the calls of \<open>AddDefertx\<close>, each
  with its argument and its result.
\<close>

fun tickerLoop ::
  "(Tx \<Rightarrow> bytes) \<Rightarrow> (bytes \<Rightarrow> 'p \<Rightarrow> addDeferResult \<times> 'p) \<Rightarrow> (nat \<Rightarrow> int64) \<Rightarrow> nat \<Rightarrow> Tx list
    \<Rightarrow> DeferServer \<Rightarrow> 'p \<Rightarrow> (bytes \<times> addDeferResult) list
    \<Rightarrow> bool \<times> DeferServer \<times> 'p \<times> (bytes \<times> addDeferResult) list" where
  "tickerLoop H AddDefertx now k [] d p calls = (False, d, p, calls)"
| "tickerLoop H AddDefertx now k (deferTx # rest) d p calls =
     (if now k <s TxTime deferTx then (True, d\<lparr>nextScheduleTime := TxTime deferTx\<rparr>, p, calls)
      else case AddDefertx (ReferredTx deferTx) p of
        (err, p1) \<Rightarrow>
          if err = ErrCacheFull
          then (True, d\<lparr>nextScheduleTime := TxTime deferTx\<rparr>, p1, calls @ [(ReferredTx deferTx, err)])
          else tickerLoop H AddDefertx now (Suc k) rest
                 (if err = AddNil \<or> err = ErrDupChainTx \<or> err = ErrDupPendingTx
                  then d\<lparr>pool := treeRemove (compareDeferTx H) deferTx (pool d)\<rparr> else d)
                 p1 (calls @ [(ReferredTx deferTx, err)]))"

definition tickerPass ::
  "(Tx \<Rightarrow> bytes) \<Rightarrow> (bytes \<Rightarrow> 'p \<Rightarrow> addDeferResult \<times> 'p) \<Rightarrow> (nat \<Rightarrow> int64) \<Rightarrow> DeferServer \<Rightarrow> 'p
    \<Rightarrow> DeferServer \<times> 'p \<times> (bytes \<times> addDeferResult) list" where
  "tickerPass H AddDefertx now d p =
     (case tickerLoop H AddDefertx now 0 (pool d) d p [] of
        (ok, d1, p1, calls) \<Rightarrow>
          if \<not> ok then (d1\<lparr>nextScheduleTime := MaxInt64\<rparr>, p1, calls) else (d1, p1, calls))"

text \<open>
  The state of the transaction pool after the first \<open>j\<close> calls of \<open>AddDefertx\<close> that a
  pass makes on the entries \<open>es\<close>, one call for each entry in order, from the state \<open>p\<close>.
\<close>

definition poolAfterCalls ::
  "(bytes \<Rightarrow> 'p \<Rightarrow> addDeferResult \<times> 'p) \<Rightarrow> Tx list \<Rightarrow> 'p \<Rightarrow> nat \<Rightarrow> 'p" where
  "poolAfterCalls AddDefertx es p j =
     fold (\<lambda>e q. snd (AddDefertx (ReferredTx e) q)) (take j es) p"


section \<open>rpc: SendRawTx and Subscribe\<close>

text \<open>
  Modelled from the spec: the type \<open>txpool.TAddTx\<close> of the result of \<open>txpool.AddTx\<close>,
  whose declaration is missing from the sources. The pool admits a transaction ``returning one of Ok,
  TimeError, VerifyError, DupError, GasPriceError, CacheFullError''; \<open>Success\<close> is Ok.
\<close>

datatype TAddTx = Success | TimeError | VerifyError | DupError | GasPriceError | CacheFullError

record RawTxReq =
  Data :: bytes

record SendRawTxRes =
  Hash :: string

text \<open>
  The server holds the transaction pool, of state \<open>'p\<close>, and the chain (block chain, fork
  database, visitor), of state \<open>'c\<close>.
\<close>

record ('p, 'c) GRPCServer =
  txpool :: 'p
  chain :: 'c

text \<open>
  \<open>SendRawTx(ctx, rawTx)\<close>. \<open>rawTx\<close> is a pointer. \<open>trx.Decode\<close>, \<open>txpool.AddTx\<close> and
  \<open>trx.Hash\<close> are the parameters \<open>decode\<close>, \<open>AddTx\<close> and \<open>H\<close>; \<open>AddTx\<close> works on the
  state of the pool. The model returns the response or the error, and the server after
  the call.
\<close>

definition SendRawTx ::
  "(bytes \<Rightarrow> string + Tx) \<Rightarrow> (Tx \<Rightarrow> 'p \<Rightarrow> TAddTx \<times> 'p) \<Rightarrow> (Tx \<Rightarrow> bytes) \<Rightarrow> ('p, 'c) GRPCServer
    \<Rightarrow> RawTxReq option \<Rightarrow> (error + SendRawTxRes) \<times> ('p, 'c) GRPCServer" where
  "SendRawTx decode AddTx H s rawTx =
     (case rawTx of
        None \<Rightarrow> (Inl (Errorf ''argument cannot be nil pointer''), s)
      | Some req \<Rightarrow>
          (case decode (Data req) of
             Inl err \<Rightarrow> (Inl (Foreign err), s)
           | Inr trx \<Rightarrow>
               (case AddTx trx (txpool s) of
                  (ret, p1) \<Rightarrow>
                    (case ret of
                       TimeError \<Rightarrow> (Inl (Errorf ''tx err:TimeError''), s\<lparr>txpool := p1\<rparr>)
                     | VerifyError \<Rightarrow> (Inl (Errorf ''tx err:VerifyError''), s\<lparr>txpool := p1\<rparr>)
                     | DupError \<Rightarrow> (Inl (Errorf ''tx err:DupError''), s\<lparr>txpool := p1\<rparr>)
                     | GasPriceError \<Rightarrow> (Inl (Errorf ''tx err:GasPriceError''), s\<lparr>txpool := p1\<rparr>)
                     | CacheFullError \<Rightarrow> (Inl (Errorf ''tx err:CacheFullError''), s\<lparr>txpool := p1\<rparr>)
                     | Success \<Rightarrow> (Inr \<lparr>Hash = H trx\<rparr>, s\<lparr>txpool := p1\<rparr>)))))"

definition admissionName :: "TAddTx \<Rightarrow> string" where
  "admissionName ret =
     (case ret of
        Success \<Rightarrow> ''Success'' | TimeError \<Rightarrow> ''TimeError'' | VerifyError \<Rightarrow> ''VerifyError''
      | DupError \<Rightarrow> ''DupError'' | GasPriceError \<Rightarrow> ''GasPriceError''
      | CacheFullError \<Rightarrow> ''CacheFullError'')"

text \<open>
  \<open>Subscribe(req, res)\<close>. The loop is a \<open>select\<close> over the channel of a ticker made with
  \<open>time.NewTicker(time.Minute)\<close> before the loop, the channel of the subscription, and
  \<open>default\<close>. One turn of the loop sees the time elapsed since the ticker was made (in
  nanoseconds), the event at the head of the subscription channel if there is one, and,
  when both channels are ready, the choice \<open>select\<close> makes. The ticker's first tick is
  ready from one minute on; reading it ends the loop, so no tick is read before.
  \<open>res.Send\<close> is the parameter \<open>send\<close>.
\<close>

type_synonym event = string

record turn =
  elapsed :: nat
  head_event :: "event option"
  picks_timer :: bool

datatype stream_end = Timeup | SendFailed string

definition minute_ns :: nat where
  "minute_ns = 60000000000"

text \<open>
  The loop over the turns the environment offers; the result is how the stream ended
  (\<open>None\<close> while it is still running after the last turn) and the events sent.
\<close>

fun subscribeLoop :: "(event \<Rightarrow> string option) \<Rightarrow> turn list \<Rightarrow> event list \<Rightarrow> stream_end option \<times> event list" where
  "subscribeLoop send [] sent = (None, sent)"
| "subscribeLoop send (t # ts) sent =
     (if minute_ns \<le> elapsed t \<and> (head_event t = None \<or> picks_timer t) then (Some Timeup, sent)
      else case head_event t of
             None \<Rightarrow> subscribeLoop send ts sent
           | Some ev \<Rightarrow>
               (case send ev of
                  Some err \<Rightarrow> (Some (SendFailed err), sent)
                | None \<Rightarrow> subscribeLoop send ts (sent @ [ev])))"

definition Subscribe :: "(event \<Rightarrow> string option) \<Rightarrow> turn list \<Rightarrow> stream_end option \<times> event list" where
  "Subscribe send turns = subscribeLoop send turns []"

text \<open>
  A turn of the loop in which \<open>select\<close> takes the tick of the ticker, and the events that
  a list of turns offers on the subscription channel.
\<close>

definition timer_taken :: "turn \<Rightarrow> bool" where
  "timer_taken t \<longleftrightarrow> minute_ns \<le> elapsed t \<and> (head_event t = None \<or> picks_timer t)"

definition received :: "turn list \<Rightarrow> event list" where
  "received turns = List.map_filter head_event turns"

section \<open>Sample inputs\<close>

text \<open>
  A static property with three witnesses, one with none, one with a single witness whose
  watermark is 5, blocks, transactions and cache nodes built from their fields,
  a heap with the chain 4, 3, 2, 1 above the root 0, and collaborators for \<open>verifyBlock\<close>:
  the head is accepted when the number follows the parent's, the hash of a transaction is
  its payload, the payload \<open>onchain\<close> is found on the chain and \<open>pending\<close> in the pending
  set, and the payload \<open>badsig\<close> fails its signature check.
\<close>

definition sample_sp :: StaticProperty where
  "sample_sp = \<lparr>NumberOfWitnesses = 3, WitnessList = [''w0'', ''w1'', ''w2''], Watermark = Map.empty\<rparr>"

definition sample_no_witness :: StaticProperty where
  "sample_no_witness = \<lparr>NumberOfWitnesses = 0, WitnessList = [], Watermark = Map.empty\<rparr>"

definition sample_watermarked :: StaticProperty where
  "sample_watermarked = \<lparr>NumberOfWitnesses = 1, WitnessList = [''w0''], Watermark = [''w0'' \<mapsto> 5]\<rparr>"

definition sample_block :: "int64 \<Rightarrow> string \<Rightarrow> int64 \<Rightarrow> bytes list \<Rightarrow> Block" where
  "sample_block n w t payloads =
     \<lparr>Head = \<lparr>Number = n, Witness = w, Time = t\<rparr>,
      Txs = map (\<lambda>h. \<lparr>TxTime = 0, Delay = 0, ReferredTx = [], Payload = h\<rparr>) payloads\<rparr>"

definition sample_tx :: "bytes \<Rightarrow> Tx" where
  "sample_tx h = \<lparr>TxTime = 0, Delay = 0, ReferredTx = [], Payload = h\<rparr>"

definition sample_defer :: "int64 \<Rightarrow> bytes \<Rightarrow> Tx" where
  "sample_defer t r = \<lparr>TxTime = t, Delay = 0, ReferredTx = r, Payload = ''deferred''\<rparr>"

definition sample_txs_block :: "Tx list \<Rightarrow> Block" where
  "sample_txs_block txs = \<lparr>Head = \<lparr>Number = 4, Witness = ''w1'', Time = 21000000005\<rparr>, Txs = txs\<rparr>"

definition sample_node :: "int64 \<Rightarrow> string \<Rightarrow> int64 \<Rightarrow> addr option \<Rightarrow> BlockCacheNode" where
  "sample_node n w c p = \<lparr>NodeHead = \<lparr>Number = n, Witness = w, Time = 0\<rparr>, ConfirmUntil = c, Parent = p\<rparr>"

definition sample_heap :: heap where
  "sample_heap a =
     (if a = 4 then sample_node 4 ''w0'' 3 (Some 3)
      else if a = 3 then sample_node 3 ''w2'' 1 (Some 2)
      else if a = 2 then sample_node 2 ''w1'' 0 (Some 1)
      else if a = 1 then sample_node 1 ''w0'' 1 (Some 0)
      else sample_node 0 ''w0'' 0 None)"

definition sample_env :: verifyEnv where
  "sample_env =
     \<lparr>VerifyBlockHead = (\<lambda>blk parent lib.
          if Number (Head blk) = Number (Head parent) + 1 then None else Some ''wrong number''),
      ExistTxs = (\<lambda>h parent.
          if h = ''onchain'' then FoundChain else if h = ''pending'' then FoundPending else NotFound),
      TxHash = Payload,
      VerifySelf = (\<lambda>t. if Payload t = ''badsig'' then Some ''invalid signature'' else None),
      IsDefer = (\<lambda>t. ReferredTx t \<noteq> []),
      GetTx = (\<lambda>h. if h = ''known'' then Inr \<lparr>TxTime = 1, Delay = 5, ReferredTx = [], Payload = ''known''\<rparr>
                     else Inl ''not found''),
      VerifyDefer = (\<lambda>t r. if TxTime t = TxTime r + Delay r then None else Some ''defer mismatch''),
      Verify = (\<lambda>blk parent. None)\<rparr>"

text \<open>
  For the defer server and the RPC server: a hash that reverses the referred hash and
  appends the payload, index entries, an \<open>AddDefertx\<close> that reports a full cache for the
  hash \<open>full\<close>, a duplicate for \<open>dup\<close> and another error for \<open>bad\<close>, a decoder that
  fails on \<open>garbage\<close>, a \<open>Send\<close> that fails on the event \<open>e3\<close>, and an \<open>AddTx\<close> on a
  pool of payloads.
\<close>

definition sample_hash :: "Tx \<Rightarrow> bytes" where
  "sample_hash t = rev (ReferredTx t) @ Payload t"

definition sample_entry :: "int64 \<Rightarrow> bytes \<Rightarrow> Tx" where
  "sample_entry t h = \<lparr>TxTime = t, Delay = 0, ReferredTx = h, Payload = []\<rparr>"

definition sample_AddDefertx :: "bytes \<Rightarrow> nat \<Rightarrow> addDeferResult \<times> nat" where
  "sample_AddDefertx h p =
     (if h = ''full'' then (ErrCacheFull, p)
      else if h = ''dup'' then (ErrDupChainTx, p)
      else if h = ''bad'' then (ErrAddOther ''verify failed'', p)
      else (AddNil, Suc p))"

definition sample_decode :: "bytes \<Rightarrow> string + Tx" where
  "sample_decode b =
     (if b = ''garbage'' then Inl ''proto: cannot parse''
      else Inr \<lparr>TxTime = 0, Delay = 0, ReferredTx = [], Payload = b\<rparr>)"

definition sample_send :: "event \<Rightarrow> string option" where
  "sample_send ev = (if ev = ''e3'' then Some ''transport is closing'' else None)"

definition sample_AddTx :: "Tx \<Rightarrow> bytes list \<Rightarrow> TAddTx \<times> bytes list" where
  "sample_AddTx t p =
     (if Payload t = ''old'' then (TimeError, p)
      else if Payload t \<in> set p then (DupError, p)
      else (Success, Payload t # p))"

section \<open>Theorems\<close>

subsection \<open>Arithmetic of \<open>int64\<close>\<close>

lemma sint_int64_range: "- 9223372036854775808 \<le> sint (x::int64) \<and> sint x \<le> 9223372036854775807"
  using sint_ge [of x] sint_lt [of x] by simp

lemma sint_eq_MaxInt64: "sint (x::int64) = 9223372036854775807 \<Longrightarrow> x = MaxInt64"
proof -
  assume "sint x = 9223372036854775807"
  then have "sint x = sint MaxInt64" by (simp add: MaxInt64_def)
  then show ?thesis by (rule signed_word_eqI)
qed

lemma sint_plus1:
  assumes "x \<noteq> MaxInt64" shows "sint (x + 1 :: int64) = sint x + 1"
proof -
  have "sint x \<noteq> 9223372036854775807" using assms sint_eq_MaxInt64 by blast
  then have r: "- (2 ^ 63) \<le> sint x + 1" "sint x + 1 < 2 ^ 63"
    using sint_int64_range [of x] by simp_all
  have "sint (x + 1) = signed_take_bit 63 (sint x + 1)"
    by (simp add: sint_word_ariths)
  also have "\<dots> = sint x + 1"
    using r by (rule signed_take_bit_int_eq_self)
  finally show ?thesis .
qed

lemma sint_word_of_int_int64:
  "- 9223372036854775808 \<le> k \<Longrightarrow> k \<le> 9223372036854775807 \<Longrightarrow> sint (word_of_int k :: int64) = k"
  by (simp add: sint_sbintrunc' signed_take_bit_int_eq_self)

lemma sdiv_pos_nonneg: "0 \<le> (a::int) \<Longrightarrow> 0 < b \<Longrightarrow> a sdiv b = a div b"
  by (simp add: signed_divide_int_def sgn_if)

lemma smod_pos_nonneg: "0 \<le> (a::int) \<Longrightarrow> 0 < b \<Longrightarrow> a smod b = a mod b"
  by (simp add: signed_modulo_int_def sgn_if)

lemma sdiv_sdiv:
  assumes "0 < b" "0 < c" shows "((a::int) sdiv b) sdiv c = a sdiv (b * c)"
proof (cases "0 \<le> a")
  case True
  then show ?thesis using assms
    by (simp add: sdiv_pos_nonneg pos_imp_zdiv_nonneg_iff zdiv_zmult2_eq)
next
  case False
  then have n: "a < 0" by simp
  have 1: "a sdiv b = - ((- a) div b)" using n assms by (simp add: signed_divide_int_def sgn_if)
  have 2: "a sdiv (b * c) = - ((- a) div (b * c))" using n assms by (simp add: signed_divide_int_def sgn_if)
  have 3: "0 \<le> (- a) div b" using n assms by (simp add: pos_imp_zdiv_nonneg_iff)
  have "(- ((- a) div b)) sdiv c = - (((- a) div b) div c)"
    using 3 assms by (cases "(- a) div b = 0") (simp_all add: signed_divide_int_def sgn_if)
  then show ?thesis using 1 2 assms by (simp add: zdiv_zmult2_eq)
qed

lemma sdiv_pos_bounds:
  assumes "0 < (b::int)" shows "min a 0 \<le> a sdiv b \<and> a sdiv b \<le> max a 0"
proof (cases "0 \<le> a")
  case True
  then have "a sdiv b = a div b" using assms by (rule sdiv_pos_nonneg)
  moreover have "0 \<le> a div b" using True assms by (simp add: pos_imp_zdiv_nonneg_iff)
  moreover have "a div b \<le> a" using True by (cases "a = 0") (simp_all add: int_div_le_self)
  ultimately show ?thesis using True by simp
next
  case False
  then have e: "a sdiv b = - ((- a) div b)" using assms by (simp add: signed_divide_int_def sgn_if)
  have "0 \<le> (- a) div b" using False assms by (simp add: pos_imp_zdiv_nonneg_iff)
  moreover have "(- a) div b \<le> - a" using False by (simp add: int_div_le_self)
  ultimately show ?thesis using False e by simp
qed

lemma sint_go_div:
  assumes "0 <s b" shows "sint (go_div a b) = sint a sdiv sint b"
proof -
  have "0 < sint b" using assms by (simp add: word_sless_alt)
  then have "min (sint a) 0 \<le> sint a sdiv sint b \<and> sint a sdiv sint b \<le> max (sint a) 0"
    by (rule sdiv_pos_bounds)
  then have "- 9223372036854775808 \<le> sint a sdiv sint b" "sint a sdiv sint b \<le> 9223372036854775807"
    using sint_int64_range [of a] by linarith+
  then show ?thesis by (simp add: go_div_def sint_word_of_int_int64)
qed

lemma sint_go_mod_nonneg:
  assumes "0 \<le>s a" "0 <s b" shows "sint (go_mod a b) = sint a mod sint b"
proof -
  have a: "0 \<le> sint a" and b: "0 < sint b" using assms by (simp_all add: word_sle_eq word_sless_alt)
  have e: "sint a smod sint b = sint a mod sint b" using a b by (rule smod_pos_nonneg)
  have "0 \<le> sint a mod sint b" "sint a mod sint b < sint b" using b by simp_all
  then have "- 9223372036854775808 \<le> sint a mod sint b" "sint a mod sint b \<le> 9223372036854775807"
    using sint_int64_range [of b] by linarith+
  then show ?thesis by (simp add: go_mod_def e sint_word_of_int_int64)
qed

subsection \<open>DecodeContract\<close>

text \<open>
  C10. For every input string the static \<open>DecodeContract\<close> never returns a decoded
  contract: when unmarshalling succeeds it returns nil, when unmarshalling fails it panics
  with that error; the method \<open>Decode\<close>, in contrast, leaves the unmarshalled message in
  the receiver and returns the error.
\<close>

theorem DecodeContract_never_returns_contract:
  "DecodeContract U str \<noteq> Returns (Some c)
   \<and> (snd (U str) = None \<longrightarrow> DecodeContract U str = Returns None)
   \<and> (\<forall>err. snd (U str) = Some err \<longrightarrow> DecodeContract U str = Panics (PanicErr err))
   \<and> Decode U c0 str = U str"
  by (cases "U str") (auto simp: DecodeContract_def Decode_def split: option.splits)

theorem DecodeContract_never_returns_contract_witness:
  "(let U = (\<lambda>s. if s = ''ok'' then (\<lparr>ID = ''c1'', Code = ''code'', Info = ''abi''\<rparr>, None)
                   else (\<lparr>ID = [], Code = [], Info = []\<rparr>, Some ''proto: bad wire type''))
    in DecodeContract U ''ok'' = Returns None
     \<and> fst (Decode U \<lparr>ID = [], Code = [], Info = []\<rparr> ''ok'') = \<lparr>ID = ''c1'', Code = ''code'', Info = ''abi''\<rparr>
     \<and> DecodeContract U ''bad'' = Panics (PanicErr ''proto: bad wire type''))"
  using DecodeContract_never_returns_contract
    [of "\<lambda>s. if s = ''ok'' then (\<lparr>ID = ''c1'', Code = ''code'', Info = ''abi''\<rparr>, None)
              else (\<lparr>ID = [], Code = [], Info = []\<rparr>, Some ''proto: bad wire type'')"
        "''ok''" "\<lparr>ID = ''c1'', Code = ''code'', Info = ''abi''\<rparr>" "\<lparr>ID = [], Code = [], Info = []\<rparr>"]
    DecodeContract_never_returns_contract
    [of "\<lambda>s. if s = ''ok'' then (\<lparr>ID = ''c1'', Code = ''code'', Info = ''abi''\<rparr>, None)
              else (\<lparr>ID = [], Code = [], Info = []\<rparr>, Some ''proto: bad wire type'')"
        "''bad''" "\<lparr>ID = ''c1'', Code = ''code'', Info = ''abi''\<rparr>" "\<lparr>ID = [], Code = [], Info = []\<rparr>"]
  by (simp add: Let_def)

subsection \<open>dbValToString\<close>

text \<open>
  C7, as the specification states it, fails: a fixed-decimal value is in the closed sum,
  and \<open>dbValToString\<close> returns the empty string with \<open>ErrInvalidDbValType\<close> for it.
\<close>

theorem dbValToString_fixed_counterexample:
  "in_closed_sum (FixedVal \<lparr>Value = 1230, Decimal = 2, Err = None\<rparr>)
   \<and> dbValToString (FixedVal \<lparr>Value = 1230, Decimal = 2, Err = None\<rparr>)
       = ([], Some ErrInvalidDbValType)"
  by simp

text \<open>
  C7, amended. \<open>dbValToString\<close> returns a string and no error exactly for the four dynamic
  types \<open>int64\<close>, \<open>string\<close>, \<open>bool\<close> and \<open>[]byte\<close> (the decimal digits, the string
  itself, \<open>true\<close>/\<open>false\<close>, the bytes as a string), and returns the empty string with
  \<open>ErrInvalidDbValType\<close> for every other value, a fixed-decimal included.
\<close>

theorem dbValToString_total:
  "dbValToString v =
     (case v of
        Int64Val n \<Rightarrow> (FormatInt10 n, None)
      | StringVal s \<Rightarrow> (s, None)
      | BoolVal b \<Rightarrow> (if b then ''true'' else ''false'', None)
      | BytesVal bs \<Rightarrow> (bs, None)
      | FixedVal f \<Rightarrow> ([], Some ErrInvalidDbValType)
      | OtherVal \<Rightarrow> ([], Some ErrInvalidDbValType))
   \<and> (snd (dbValToString v) = None \<longleftrightarrow> in_closed_sum v \<and> \<not> is_fixed v)"
  by (cases v) (simp_all add: FormatBool_def)

theorem dbValToString_total_witness:
  "dbValToString (Int64Val (- 42)) = (''-42'', None)
   \<and> dbValToString (BoolVal True) = (''true'', None)
   \<and> dbValToString (BytesVal ''ab'') = (''ab'', None)
   \<and> snd (dbValToString OtherVal) \<noteq> None"
  using dbValToString_total [of "Int64Val (- 42)"] dbValToString_total [of "BoolVal True"]
    dbValToString_total [of "BytesVal ''ab''"] dbValToString_total [of OtherVal]
  by (simp add: FormatInt10_def digit10_def)

subsection \<open>The witness schedule\<close>

lemma witnessOfSlot_nonneg:
  assumes s: "0 \<le>s slot" and len: "int (length witnessList) = sint (NumberOfWitnesses sp)"
    and n0: "NumberOfWitnesses sp \<noteq> 0"
  shows "witnessOfSlot sp slot witnessList = Returns (witnessList ! (nat (sint slot) mod length witnessList))"
proof -
  have npos: "0 < sint (NumberOfWitnesses sp)"
  proof -
    have "sint (NumberOfWitnesses sp) \<noteq> 0" using n0 by (metis signed_word_eqI sint_0)
    then show ?thesis using len by (metis of_nat_0_le_iff order_le_less)
  qed
  then have nposw: "0 <s NumberOfWitnesses sp" by (simp add: word_sless_alt)
  have m: "sint (go_mod slot (NumberOfWitnesses sp)) = sint slot mod sint (NumberOfWitnesses sp)"
    using s nposw by (rule sint_go_mod_nonneg)
  have s0: "0 \<le> sint slot" using s by (simp add: word_sle_eq)
  have lo: "0 \<le> sint slot mod sint (NumberOfWitnesses sp)" 
    and hi: "sint slot mod sint (NumberOfWitnesses sp) < sint (NumberOfWitnesses sp)"
    using npos by simp_all
  have idx: "nat (sint slot mod sint (NumberOfWitnesses sp)) = nat (sint slot) mod length witnessList"
    using s0 npos len by (metis nat_int nat_mod_distrib of_nat_0_le_iff)
  show ?thesis
    using n0 m lo hi idx len by (simp add: witnessOfSlot_def Let_def word_sless_alt)
qed

lemma slot_of_nanosec:
  assumes "0 <s SlotLength"
  shows "sint (go_div (go_div t second2nanosecond) SlotLength) = sint t sdiv (sint SlotLength * 1000000000)"
proof -
  have l: "0 < sint SlotLength" using assms by (simp add: word_sless_alt)
  have "0 <s second2nanosecond" by (simp add: second2nanosecond_def word_sless_alt)
  then have 1: "sint (go_div t second2nanosecond) = sint t sdiv 1000000000"
    by (simp add: sint_go_div second2nanosecond_def)
  have "sint (go_div (go_div t second2nanosecond) SlotLength) = (sint t sdiv 1000000000) sdiv sint SlotLength"
    using assms 1 by (simp add: sint_go_div)
  also have "\<dots> = sint t sdiv (1000000000 * sint SlotLength)"
    using l by (simp add: sdiv_sdiv)
  finally show ?thesis by (simp add: mult.commute)
qed

lemma witnessOfNanoSec_slot:
  assumes "0 <s SlotLength"
  shows "witnessOfNanoSec sp SlotLength t wl = witnessOfSlot sp (go_div (go_div t second2nanosecond) SlotLength) wl"
proof -
  have "SlotLength \<noteq> 0" using assms by auto
  then show ?thesis by (simp add: witnessOfNanoSec_def witnessOfSec_def)
qed

lemma txCheck_not_ErrWitness: "txCheck env parent t \<noteq> Some ErrWitness"
  by (simp add: txCheck_def Let_def split: option.splits sum.splits)

lemma txLoop_not_ErrWitness: "txLoop env parent i ts \<noteq> Some ErrWitness"
  by (induction ts arbitrary: i) (auto simp: txCheck_not_ErrWitness split: option.splits)

lemma verifyBlock_ErrWitness_iff:
  "verifyBlock env sp SlotLength blk parent lib = Returns (Some ErrWitness)
    \<longleftrightarrow> VerifyBlockHead env blk parent lib = None
       \<and> (\<exists>w. witnessOfNanoSec sp SlotLength (Time (Head blk)) (WitnessList sp) = Returns w
              \<and> w \<noteq> Witness (Head blk))"
  using txLoop_not_ErrWitness [of env parent 0 "Txs blk"]
  by (cases "Verify env blk parent")
     (auto simp: verifyBlock_def split: option.splits outcome.splits)

text \<open>
  C2, as the specification states it, fails. \<open>verifyBlock\<close> checks the block head first:
  for a block whose head \<open>VerifyBlockHead\<close> refuses, it returns that error, not the
  wrong-witness error, also when the witness computed from the head's time (\<open>w1\<close> here)
  differs from the head's witness field (\<open>w2\<close>). And with no witness configured, an empty
  list and \<open>NumberOfWitnesses = 0\<close>, \<open>witnessOfSlot\<close> does not return: \<open>slot % 0\<close> panics.
\<close>

theorem witness_schedule_counterexample:
  "verifyBlock sample_env sample_sp 3 (sample_block 9 ''w2'' 21000000005 [])
        (sample_block 3 ''w0'' 18000000000 []) (sample_block 0 ''w0'' 0 [])
       = Returns (Some (Foreign ''wrong number''))
   \<and> witnessOfNanoSec sample_sp 3 21000000005 (WitnessList sample_sp) = Returns ''w1''
   \<and> Witness (Head (sample_block 9 ''w2'' 21000000005 [])) = ''w2''
   \<and> witnessOfSlot sample_no_witness 7 (WitnessList sample_no_witness) = Panics DivideByZero"
  by (simp add: verifyBlock_def sample_env_def sample_block_def sample_sp_def sample_no_witness_def
      witnessOfNanoSec_def witnessOfSec_def witnessOfSlot_def go_div_def go_mod_def
      second2nanosecond_def signed_divide_int_def signed_modulo_int_def Let_def word_sless_alt)

text \<open>
  C2, amended. For a slot number \<open>s \<ge> 0\<close> and a witness list whose length is the
  configured number of witnesses \<open>N \<ge> 1\<close>, \<open>witnessOfSlot\<close> returns \<open>list[s mod N]\<close>; for
  a positive slot length, \<open>witnessOfNanoSec\<close> takes the slot of a timestamp \<open>t\<close> to be
  \<open>(t / 10^9) / SlotLength\<close>, which is \<open>t / (SlotLength * 10^9)\<close> with truncating division;
  and \<open>verifyBlock\<close> returns the wrong-witness error exactly when \<open>VerifyBlockHead\<close>
  accepts the head and the witness computed from the head's time differs from the head's
  witness field.
\<close>

theorem witness_schedule:
  assumes "0 \<le>s slot" and "int (length witnessList) = sint (NumberOfWitnesses sp)"
    and "NumberOfWitnesses sp \<noteq> 0" and "0 <s SlotLength"
  shows "witnessOfSlot sp slot witnessList
           = Returns (witnessList ! (nat (sint slot) mod length witnessList))
       \<and> witnessOfNanoSec sp SlotLength t wl
           = witnessOfSlot sp (go_div (go_div t second2nanosecond) SlotLength) wl
       \<and> sint (go_div (go_div t second2nanosecond) SlotLength)
           = sint t sdiv (sint SlotLength * 1000000000)
       \<and> (verifyBlock env sp SlotLength blk parent lib = Returns (Some ErrWitness)
            \<longleftrightarrow> VerifyBlockHead env blk parent lib = None
               \<and> (\<exists>w. witnessOfNanoSec sp SlotLength (Time (Head blk)) (WitnessList sp) = Returns w
                      \<and> w \<noteq> Witness (Head blk)))"
  using witnessOfSlot_nonneg [OF assms(1,2,3)] witnessOfNanoSec_slot [OF assms(4)]
    slot_of_nanosec [OF assms(4)] verifyBlock_ErrWitness_iff
  by blast

theorem witness_schedule_witness:
  "witnessOfSlot sample_sp 7 [''w0'', ''w1'', ''w2''] = Returns ''w1''
   \<and> witnessOfNanoSec sample_sp 3 21000000005 [''w0'', ''w1'', ''w2''] = Returns ''w1''
   \<and> sint (go_div (go_div 21000000005 second2nanosecond) 3) = 7
   \<and> verifyBlock sample_env sample_sp 3 (sample_block 4 ''w2'' 21000000005 [])
        (sample_block 3 ''w0'' 18000000000 []) (sample_block 0 ''w0'' 0 [])
       = Returns (Some ErrWitness)"
proof -
  have h1: "0 \<le>s (7::int64)" by (simp add: word_sle_eq)
  have h2: "int (length [''w0'', ''w1'', ''w2'']) = sint (NumberOfWitnesses sample_sp)"
    by (simp add: sample_sp_def)
  have h3: "NumberOfWitnesses sample_sp \<noteq> 0" by (simp add: sample_sp_def)
  have h4: "0 <s (3::int64)" by (simp add: word_sless_alt)
  have e: "go_div (go_div 21000000005 second2nanosecond) 3 = 7"
    by (simp add: go_div_def second2nanosecond_def signed_divide_int_def)
  show ?thesis
    using witness_schedule [OF h1 h2 h3 h4, of 21000000005 "[''w0'', ''w1'', ''w2'']" sample_env
      "sample_block 4 ''w2'' 21000000005 []" "sample_block 3 ''w0'' 18000000000 []"
      "sample_block 0 ''w0'' 0 []"]
    by (simp add: e sample_env_def sample_block_def sample_sp_def)
qed

subsection \<open>The checks of \<open>verifyBlock\<close> on the transactions\<close>

lemma txLoop_first_error:
  assumes "0 < k" "i < length ts" "\<forall>j<i. txCheck env parent (ts ! j) = None"
    "txCheck env parent (ts ! i) = Some err"
  shows "txLoop env parent k ts = Some err"
  using assms
proof (induction ts arbitrary: i k)
  case Nil
  then show ?case by simp
next
  case (Cons t ts)
  show ?case
  proof (cases i)
    case 0
    then show ?thesis using Cons.prems by simp
  next
    case (Suc i')
    have h: "txCheck env parent t = None" using Cons.prems(3) Suc by auto
    have "txLoop env parent (Suc k) ts = Some err"
    proof (rule Cons.IH [of "Suc k" i'])
      show "0 < Suc k" by simp
      show "i' < length ts" using Cons.prems(2) Suc by simp
      show "\<forall>j<i'. txCheck env parent (ts ! j) = None" using Cons.prems(3) Suc by auto
      show "txCheck env parent (ts ! i') = Some err" using Cons.prems(4) Suc by simp
    qed
    then show ?thesis using h Cons.prems(1) by simp
  qed
qed

lemma txLoop_all_pass:
  assumes "0 < k" "\<forall>t\<in>set ts. txCheck env parent t = None"
  shows "txLoop env parent k ts = None"
  using assms by (induction ts arbitrary: k) auto

text \<open>
  C9, as the specification states it, fails: the loop returns at the first transaction
  that fails a check. In the block below the transaction at position 2 is on the ancestor
  chain, and the block is rejected with the tx-signature error of position 1, not with the
  duplicate-tx error.
\<close>

theorem verifyBlock_tx_checks_counterexample:
  "ExistTxs sample_env (TxHash sample_env (Txs (sample_block 4 ''w1'' 21000000005 [''base'', ''badsig'', ''onchain'']) ! 2))
       (sample_block 3 ''w0'' 18000000000 []) = FoundChain
   \<and> verifyBlock sample_env sample_sp 3 (sample_block 4 ''w1'' 21000000005 [''base'', ''badsig'', ''onchain''])
        (sample_block 3 ''w0'' 18000000000 []) (sample_block 0 ''w0'' 0 [])
       = Returns (Some ErrTxSignature)"
  by (simp add: verifyBlock_def sample_env_def sample_block_def sample_sp_def txCheck_def
      witnessOfNanoSec_def witnessOfSec_def witnessOfSlot_def go_div_def go_mod_def
      second2nanosecond_def signed_divide_int_def signed_modulo_int_def Let_def word_sless_alt)

text \<open>
  C9, amended. The transaction at position 0 takes no part in the dedup, signature and
  defer-reference checks: the loop gives the same result whatever the base transaction is.
  When \<open>VerifyBlockHead\<close> and the witness check accept the block and every transaction
  at a position from 1 up to \<open>i\<close> (position \<open>i\<close> of \<open>ts\<close> is position \<open>i + 1\<close> of the
  block) passes its checks, the block is rejected with the duplicate-tx error if the hash
  of the next transaction is found on the chain; if it is found neither on the chain nor
  in the pending set, the block is rejected with the tx-signature error when \<open>VerifySelf\<close>
  fails, and otherwise, for a deferred transaction, with an error when the referred
  transaction cannot be fetched or \<open>VerifyDefer\<close> fails. A transaction found in the pending
  set passes. When all transactions from position 1 on pass, the result is that of
  \<open>verifier.Verify\<close>.
\<close>

theorem verifyBlock_tx_checks:
  assumes "VerifyBlockHead env blk parent lib = None"
    and "witnessOfNanoSec sp SlotLength (Time (Head blk)) (WitnessList sp) = Returns (Witness (Head blk))"
    and "Txs blk = base # ts" and "i < length ts"
    and "\<forall>j<i. txCheck env parent (ts ! j) = None"
  shows "txLoop env parent 0 (base' # ts) = txLoop env parent 0 (base # ts)
     \<and> (ExistTxs env (TxHash env (ts ! i)) parent = FoundChain
          \<longrightarrow> verifyBlock env sp SlotLength blk parent lib = Returns (Some ErrTxDup))
     \<and> (ExistTxs env (TxHash env (ts ! i)) parent = NotFound \<and> VerifySelf env (ts ! i) \<noteq> None
          \<longrightarrow> verifyBlock env sp SlotLength blk parent lib = Returns (Some ErrTxSignature))
     \<and> (ExistTxs env (TxHash env (ts ! i)) parent = NotFound \<and> VerifySelf env (ts ! i) = None
          \<and> IsDefer env (ts ! i) \<and> GetTx env (ReferredTx (ts ! i)) = Inl err
          \<longrightarrow> verifyBlock env sp SlotLength blk parent lib
                = Returns (Some (Errorf (''get referred tx error, '' @ err))))
     \<and> (ExistTxs env (TxHash env (ts ! i)) parent = NotFound \<and> VerifySelf env (ts ! i) = None
          \<and> IsDefer env (ts ! i) \<and> GetTx env (ReferredTx (ts ! i)) = Inr referredTx
          \<and> VerifyDefer env (ts ! i) referredTx = Some err
          \<longrightarrow> verifyBlock env sp SlotLength blk parent lib = Returns (Some (Foreign err)))
     \<and> (ExistTxs env (TxHash env (ts ! i)) parent = FoundPending
          \<longrightarrow> txCheck env parent (ts ! i) = None)
     \<and> ((\<forall>t\<in>set ts. txCheck env parent t = None)
          \<longrightarrow> verifyBlock env sp SlotLength blk parent lib
                = Returns (map_option Foreign (Verify env blk parent)))"
proof -
  have first: "\<And>e. txCheck env parent (ts ! i) = Some e
      \<Longrightarrow> verifyBlock env sp SlotLength blk parent lib = Returns (Some e)"
  proof -
    fix e assume "txCheck env parent (ts ! i) = Some e"
    then have "txLoop env parent (Suc 0) ts = Some e"
      using assms(4,5) by (intro txLoop_first_error) simp_all
    then show "verifyBlock env sp SlotLength blk parent lib = Returns (Some e)"
      using assms(1,2,3) by (simp add: verifyBlock_def)
  qed
  have allpass: "(\<forall>t\<in>set ts. txCheck env parent t = None)
      \<longrightarrow> verifyBlock env sp SlotLength blk parent lib = Returns (map_option Foreign (Verify env blk parent))"
  proof
    assume "\<forall>t\<in>set ts. txCheck env parent t = None"
    then have "txLoop env parent (Suc 0) ts = None" by (intro txLoop_all_pass) simp_all
    then show "verifyBlock env sp SlotLength blk parent lib = Returns (map_option Foreign (Verify env blk parent))"
      using assms(1,2,3) by (simp add: verifyBlock_def)
  qed
  have c1: "ExistTxs env (TxHash env (ts ! i)) parent = FoundChain
      \<Longrightarrow> txCheck env parent (ts ! i) = Some ErrTxDup"
    by (simp add: txCheck_def)
  have c2: "ExistTxs env (TxHash env (ts ! i)) parent = NotFound \<and> VerifySelf env (ts ! i) \<noteq> None
      \<Longrightarrow> txCheck env parent (ts ! i) = Some ErrTxSignature"
    by (auto simp: txCheck_def)
  have c3: "ExistTxs env (TxHash env (ts ! i)) parent = NotFound \<and> VerifySelf env (ts ! i) = None
          \<and> IsDefer env (ts ! i) \<and> GetTx env (ReferredTx (ts ! i)) = Inl err
      \<Longrightarrow> txCheck env parent (ts ! i) = Some (Errorf (''get referred tx error, '' @ err))"
    by (simp add: txCheck_def)
  have c4: "ExistTxs env (TxHash env (ts ! i)) parent = NotFound \<and> VerifySelf env (ts ! i) = None
          \<and> IsDefer env (ts ! i) \<and> GetTx env (ReferredTx (ts ! i)) = Inr referredTx
          \<and> VerifyDefer env (ts ! i) referredTx = Some err
      \<Longrightarrow> txCheck env parent (ts ! i) = Some (Foreign err)"
    by (simp add: txCheck_def)
  have c5: "ExistTxs env (TxHash env (ts ! i)) parent = FoundPending
      \<Longrightarrow> txCheck env parent (ts ! i) = None"
    by (simp add: txCheck_def)
  have c0: "txLoop env parent 0 (base' # ts) = txLoop env parent 0 (base # ts)" by simp
  show ?thesis using c0 first [OF c1] first [OF c2] first [OF c3] first [OF c4] c5 allpass by blast
qed

theorem verifyBlock_tx_checks_witness:
  "verifyBlock sample_env sample_sp 3
       (sample_txs_block [sample_tx ''onchain'', sample_tx ''pending'', sample_tx ''onchain''])
       (sample_block 3 ''w0'' 18000000000 []) (sample_block 0 ''w0'' 0 [])
     = Returns (Some ErrTxDup)
   \<and> verifyBlock sample_env sample_sp 3
       (sample_txs_block [sample_tx ''base'', sample_tx ''badsig''])
       (sample_block 3 ''w0'' 18000000000 []) (sample_block 0 ''w0'' 0 [])
     = Returns (Some ErrTxSignature)
   \<and> verifyBlock sample_env sample_sp 3
       (sample_txs_block [sample_tx ''base'', sample_defer 6 ''unknown''])
       (sample_block 3 ''w0'' 18000000000 []) (sample_block 0 ''w0'' 0 [])
     = Returns (Some (Errorf ''get referred tx error, not found''))
   \<and> verifyBlock sample_env sample_sp 3
       (sample_txs_block [sample_tx ''base'', sample_defer 7 ''known''])
       (sample_block 3 ''w0'' 18000000000 []) (sample_block 0 ''w0'' 0 [])
     = Returns (Some (Foreign ''defer mismatch''))
   \<and> verifyBlock sample_env sample_sp 3
       (sample_txs_block [sample_tx ''badsig'', sample_tx ''pending'', sample_defer 6 ''known''])
       (sample_block 3 ''w0'' 18000000000 []) (sample_block 0 ''w0'' 0 [])
     = Returns None"
proof -
  let ?parent = "sample_block 3 ''w0'' 18000000000 []"
  let ?lib = "sample_block 0 ''w0'' 0 []"
  have h1: "VerifyBlockHead sample_env (sample_txs_block txs) ?parent ?lib = None" for txs
    by (simp add: sample_env_def sample_block_def sample_txs_block_def)
  have h2: "witnessOfNanoSec sample_sp 3 (Time (Head (sample_txs_block txs))) (WitnessList sample_sp)
      = Returns (Witness (Head (sample_txs_block txs)))" for txs
    by (simp add: sample_txs_block_def sample_sp_def
      witnessOfNanoSec_def witnessOfSec_def witnessOfSlot_def go_div_def go_mod_def
      second2nanosecond_def signed_divide_int_def signed_modulo_int_def Let_def word_sless_alt)
  have h3: "Txs (sample_txs_block (base # ts)) = base # ts" for base ts
    by (simp add: sample_txs_block_def)
  have p: "txCheck sample_env ?parent (sample_tx ''pending'') = None"
    by (simp add: txCheck_def sample_env_def sample_tx_def)
  have d: "txCheck sample_env ?parent (sample_defer 6 ''known'') = None"
    by (simp add: txCheck_def sample_env_def sample_defer_def)
  have a: "verifyBlock sample_env sample_sp 3
       (sample_txs_block [sample_tx ''onchain'', sample_tx ''pending'', sample_tx ''onchain''])
       ?parent ?lib = Returns (Some ErrTxDup)"
    using verifyBlock_tx_checks [OF h1 h2 h3, where i = 1
        and ts = "[sample_tx ''pending'', sample_tx ''onchain'']"] p
    by (simp add: sample_env_def sample_tx_def)
  have b: "verifyBlock sample_env sample_sp 3
       (sample_txs_block [sample_tx ''base'', sample_tx ''badsig'']) ?parent ?lib
     = Returns (Some ErrTxSignature)"
    using verifyBlock_tx_checks [OF h1 h2 h3, where i = 0 and ts = "[sample_tx ''badsig'']"]
    by (simp add: sample_env_def sample_tx_def)
  have c: "verifyBlock sample_env sample_sp 3
       (sample_txs_block [sample_tx ''base'', sample_defer 6 ''unknown'']) ?parent ?lib
     = Returns (Some (Errorf ''get referred tx error, not found''))"
    using verifyBlock_tx_checks [OF h1 h2 h3, where i = 0 and ts = "[sample_defer 6 ''unknown'']"
        and err = "''not found''"]
    by (simp add: sample_env_def sample_defer_def)
  have e: "verifyBlock sample_env sample_sp 3
       (sample_txs_block [sample_tx ''base'', sample_defer 7 ''known'']) ?parent ?lib
     = Returns (Some (Foreign ''defer mismatch''))"
    using verifyBlock_tx_checks [OF h1 h2 h3, where i = 0 and ts = "[sample_defer 7 ''known'']"
        and err = "''defer mismatch''"
        and referredTx = "\<lparr>TxTime = 1, Delay = 5, ReferredTx = [], Payload = ''known''\<rparr>"]
    by (simp add: sample_env_def sample_defer_def)
  have f: "verifyBlock sample_env sample_sp 3
       (sample_txs_block [sample_tx ''badsig'', sample_tx ''pending'', sample_defer 6 ''known''])
       ?parent ?lib = Returns None"
    using verifyBlock_tx_checks [OF h1 h2 h3, where i = 0
        and ts = "[sample_tx ''pending'', sample_defer 6 ''known'']"] p d
    by (simp add: sample_env_def)
  show ?thesis by (intro conjI) (rule a, rule b, rule c, rule e, rule f)
qed

subsection \<open>Watermarks\<close>

lemma updateWaterMark_node:
  "snd (updateWaterMark sp node) = node\<lparr>ConfirmUntil := map_get (Watermark sp) (Witness (NodeHead node))\<rparr>"
  by (simp add: updateWaterMark_def Let_def)

lemma updateWaterMark_mono:
  assumes "Number (NodeHead node) \<noteq> MaxInt64"
  shows "map_get (Watermark sp) w \<le>s map_get (Watermark (fst (updateWaterMark sp node))) w"
proof -
  have "sint (Number (NodeHead node) + 1) = sint (Number (NodeHead node)) + 1"
    using assms by (rule sint_plus1)
  then show ?thesis
    by (auto simp: updateWaterMark_def Let_def map_get_def word_sle_eq)
qed

lemma linkAll_lower:
  assumes "\<forall>n\<in>set ns. Number (NodeHead n) \<noteq> MaxInt64"
    and "n' \<in> set (snd (linkAll sp ns))" and "Witness (NodeHead n') = w"
  shows "map_get (Watermark sp) w \<le>s ConfirmUntil n'"
  using assms
proof (induction ns arbitrary: sp)
  case Nil
  then show ?case by simp
next
  case (Cons n ns)
  obtain sp1 n1 where u: "updateWaterMark sp n = (sp1, n1)" by (cases "updateWaterMark sp n")
  obtain sp2 ns2 where l: "linkAll sp1 ns = (sp2, ns2)" by (cases "linkAll sp1 ns")
  have n1: "n1 = n\<lparr>ConfirmUntil := map_get (Watermark sp) (Witness (NodeHead n))\<rparr>"
    using updateWaterMark_node [of sp n] u by simp
  have m: "map_get (Watermark sp) w \<le>s map_get (Watermark sp1) w"
    using updateWaterMark_mono [of n sp w] Cons.prems(1) u by simp
  from Cons.prems(2) u l have "n' = n1 \<or> n' \<in> set ns2" by simp
  then show ?case
  proof
    assume "n' = n1"
    then show ?thesis using n1 Cons.prems(3) by (simp add: word_sle_eq)
  next
    assume "n' \<in> set ns2"
    then have "n' \<in> set (snd (linkAll sp1 ns))" using l by simp
    moreover have "\<forall>n\<in>set ns. Number (NodeHead n) \<noteq> MaxInt64" using Cons.prems(1) by simp
    ultimately have "map_get (Watermark sp1) w \<le>s ConfirmUntil n'"
      using Cons.prems(3) by (intro Cons.IH)
    then show ?thesis using m by (simp add: word_sle_eq)
  qed
qed

lemma linkAll_sorted:
  assumes "\<forall>n\<in>set ns. Number (NodeHead n) \<noteq> MaxInt64"
  shows "sorted_wrt (\<le>s) (map ConfirmUntil (filter (\<lambda>n. Witness (NodeHead n) = w) (snd (linkAll sp ns))))"
  using assms
proof (induction ns arbitrary: sp)
  case Nil
  then show ?case by simp
next
  case (Cons n ns)
  obtain sp1 n1 where u: "updateWaterMark sp n = (sp1, n1)" by (cases "updateWaterMark sp n")
  obtain sp2 ns2 where l: "linkAll sp1 ns = (sp2, ns2)" by (cases "linkAll sp1 ns")
  have n1: "n1 = n\<lparr>ConfirmUntil := map_get (Watermark sp) (Witness (NodeHead n))\<rparr>"
    using updateWaterMark_node [of sp n] u by simp
  have m: "map_get (Watermark sp) w \<le>s map_get (Watermark sp1) w"
    using updateWaterMark_mono [of n sp w] Cons.prems(1) u by simp
  have tl: "sorted_wrt (\<le>s) (map ConfirmUntil (filter (\<lambda>n. Witness (NodeHead n) = w) ns2))"
    using Cons.IH [of sp1] Cons.prems l by simp
  have lo: "\<forall>n'\<in>set ns2. Witness (NodeHead n') = w \<longrightarrow> map_get (Watermark sp) w \<le>s ConfirmUntil n'"
  proof (intro ballI impI)
    fix n' assume a: "n' \<in> set ns2" "Witness (NodeHead n') = w"
    have "map_get (Watermark sp1) w \<le>s ConfirmUntil n'"
      using linkAll_lower [of ns n' sp1 w] Cons.prems a l by simp
    then show "map_get (Watermark sp) w \<le>s ConfirmUntil n'" using m by (simp add: word_sle_eq)
  qed
  show ?case using u l tl lo n1 by auto
qed

text \<open>
  C3, as the specification states it, fails at the largest block number: \<open>Number + 1\<close>
  wraps around to the least \<open>int64\<close>, so the watermark of the witness falls from 5 to
  \<open>MinInt64\<close>, and of two blocks of the witness with that number, linked one after the
  other, the second gets a smaller \<open>ConfirmUntil\<close> than the first.
\<close>

theorem updateWaterMark_monotone_counterexample:
  "map_get (Watermark sample_watermarked) ''w0'' = 5
   \<and> map_get (Watermark (fst (updateWaterMark sample_watermarked (sample_node MaxInt64 ''w0'' 0 None)))) ''w0''
       = MinInt64
   \<and> MinInt64 <s 5
   \<and> map ConfirmUntil (snd (linkAll sample_watermarked
         [sample_node MaxInt64 ''w0'' 0 None, sample_node MaxInt64 ''w0'' 0 None])) = [5, MinInt64]"
  by (simp add: sample_watermarked_def sample_node_def updateWaterMark_def map_get_def Let_def
      word_sle_eq word_sless_alt MaxInt64_def MinInt64_def)

text \<open>
  C3, amended. For nodes whose block number is below the largest \<open>int64\<close>, a call of
  \<open>updateWaterMark\<close> sets the node's \<open>ConfirmUntil\<close> to the watermark of its witness at
  that moment and then leaves the watermarks unchanged or raises the watermark of that
  witness to \<open>Number + 1\<close>; no watermark ever decreases; and along any sequence of such
  nodes linked one after the other (in whatever order of numbers), the \<open>ConfirmUntil\<close> of
  the nodes of one witness is monotone non-decreasing.
\<close>

theorem updateWaterMark_monotone:
  assumes "Number (NodeHead node) \<noteq> MaxInt64"
    and "\<forall>n\<in>set ns. Number (NodeHead n) \<noteq> MaxInt64"
  shows "ConfirmUntil (snd (updateWaterMark sp node)) = map_get (Watermark sp) (Witness (NodeHead node))
     \<and> NodeHead (snd (updateWaterMark sp node)) = NodeHead node
     \<and> (Watermark (fst (updateWaterMark sp node)) = Watermark sp
         \<or> Watermark (fst (updateWaterMark sp node))
              = (Watermark sp)(Witness (NodeHead node) \<mapsto> Number (NodeHead node) + 1)
           \<and> map_get (Watermark sp) (Witness (NodeHead node)) <s Number (NodeHead node) + 1)
     \<and> (\<forall>w. map_get (Watermark sp) w \<le>s map_get (Watermark (fst (updateWaterMark sp node))) w)
     \<and> (\<forall>w. sorted_wrt (\<le>s)
           (map ConfirmUntil (filter (\<lambda>n. Witness (NodeHead n) = w) (snd (linkAll sp ns)))))"
proof -
  have s: "sint (Number (NodeHead node) + 1) = sint (Number (NodeHead node)) + 1"
    using assms(1) by (rule sint_plus1)
  have a: "ConfirmUntil (snd (updateWaterMark sp node)) = map_get (Watermark sp) (Witness (NodeHead node))"
    and b: "NodeHead (snd (updateWaterMark sp node)) = NodeHead node"
    by (simp_all add: updateWaterMark_node)
  have c: "Watermark (fst (updateWaterMark sp node)) = Watermark sp
         \<or> Watermark (fst (updateWaterMark sp node))
              = (Watermark sp)(Witness (NodeHead node) \<mapsto> Number (NodeHead node) + 1)
           \<and> map_get (Watermark sp) (Witness (NodeHead node)) <s Number (NodeHead node) + 1"
    using s by (auto simp: updateWaterMark_def Let_def word_sle_eq word_sless_alt)
  show ?thesis
    using a b c updateWaterMark_mono [OF assms(1)] linkAll_sorted [OF assms(2)] by blast
qed

theorem updateWaterMark_monotone_witness:
  "map ConfirmUntil (snd (linkAll sample_sp
       [sample_node 1 ''w0'' 0 None, sample_node 2 ''w1'' 0 None, sample_node 3 ''w0'' 0 None]))
     = [0, 0, 2]
   \<and> map_get (Watermark (fst (updateWaterMark sample_sp (sample_node 1 ''w0'' 0 None)))) ''w0'' = 2
   \<and> sorted_wrt (\<le>s) (map ConfirmUntil (filter (\<lambda>n. Witness (NodeHead n) = ''w0'')
        (snd (linkAll sample_sp
          [sample_node 1 ''w0'' 0 None, sample_node 2 ''w1'' 0 None, sample_node 3 ''w0'' 0 None]))))"
proof -
  have h1: "Number (NodeHead (sample_node 1 ''w0'' 0 None)) \<noteq> MaxInt64"
    by (simp add: sample_node_def MaxInt64_def)
  have h2: "\<forall>n\<in>set [sample_node 1 ''w0'' 0 None, sample_node 2 ''w1'' 0 None, sample_node 3 ''w0'' 0 None].
      Number (NodeHead n) \<noteq> MaxInt64"
    by (simp add: sample_node_def MaxInt64_def)
  show ?thesis
    using updateWaterMark_monotone [OF h1 h2, of sample_sp]
    by (simp add: sample_node_def sample_sp_def updateWaterMark_def map_get_def Let_def word_sle_eq)
qed

subsection \<open>\<open>calculateConfirm\<close>\<close>

lemma map_counts_empty: "map_counts Map.empty []"
  by (simp add: map_counts_def map_get_def)

lemma map_counts_step:
  assumes "map_counts m seen"
  shows "map_counts
           (if counted n then m(ConfirmUntil n \<mapsto> map_get m (ConfirmUntil n) + 1) else m)
           (seen @ [n])"
  using assms by (auto simp: map_counts_def map_get_def)

lemma confirmLoop_refines:
  assumes "ancestorPath h a r ns" and "map_counts m seen"
  shows "confirmLoop h limit cnt m (Some a) (Some r) = Some (Returns (confirmWalk limit seen cnt ns))"
  using assms
proof (induction arbitrary: m seen cnt rule: ancestorPath.induct)
  case (ancestorPath_root h r)
  show ?case by (subst confirmLoop.simps) simp
next
  case (ancestorPath_step a r h p ns)
  let ?n = "h a"
  let ?m1 = "if counted ?n then m(ConfirmUntil ?n \<mapsto> map_get m (ConfirmUntil ?n) + 1) else m"
  let ?c1 = "cnt + (if counted ?n then 1 else 0)"
  have inv: "map_counts ?m1 (seen @ [?n])"
    using ancestorPath_step.prems by (rule map_counts_step)
  then have sub: "map_get ?m1 (Number (NodeHead ?n))
      = of_nat (length (filter (\<lambda>x. counted x \<and> ConfirmUntil x = Number (NodeHead ?n)) (seen @ [?n])))"
    by (simp add: map_counts_def)
  have rec: "confirmLoop h limit (?c1 - map_get ?m1 (Number (NodeHead ?n))) ?m1 (Some p) (Some r)
      = Some (Returns (confirmWalk limit (seen @ [?n]) (?c1 - map_get ?m1 (Number (NodeHead ?n))) ns))"
    using inv by (rule ancestorPath_step.IH)
  show ?case
  proof (cases "limit \<le>s ?c1")
    case True
    then show ?thesis
      using ancestorPath_step.hyps(1)
      by (subst confirmLoop.simps) (auto simp add: Let_def counted_def split: if_splits)
  next
    case False
    have "confirmLoop h limit cnt m (Some a) (Some r)
        = confirmLoop h limit (?c1 - map_get ?m1 (Number (NodeHead ?n))) ?m1 (Some p) (Some r)"
      using ancestorPath_step.hyps(1,2) False
      by (subst confirmLoop.simps) (auto simp add: Let_def counted_def split: if_splits)
    also have "\<dots> = Some (Returns (confirmWalk limit (seen @ [?n]) (?c1 - map_get ?m1 (Number (NodeHead ?n))) ns))"
      by (rule rec)
    also have "confirmWalk limit (seen @ [?n]) (?c1 - map_get ?m1 (Number (NodeHead ?n))) ns
        = confirmWalk limit seen cnt ((a, ?n) # ns)"
      using False sub by (simp add: Let_def)
    finally show ?thesis .
  qed
qed

lemma calculateConfirm_refines:
  assumes "ancestorPath h a r ns"
  shows "calculateConfirm sp h (Some a) (Some r) = Some (Returns (confirmWalk (confirmLimitOf sp) [] 0 ns))"
  using confirmLoop_refines [OF assms map_counts_empty]
  by (simp add: calculateConfirm_def)

lemma find_Some_mem: "List.find P xs = Some x \<Longrightarrow> x \<in> set xs"
  by (induction xs) (auto split: if_splits)

lemma confirmWalk_find:
  assumes "cnt = of_nat (length (filter counted seen))
     - (\<Sum>k<length seen. of_nat (length (filter (\<lambda>x. counted x \<and> ConfirmUntil x
            = Number (NodeHead ((seen @ map snd rest) ! k))) (take (Suc k) (seen @ map snd rest)))))"
  shows "confirmWalk limit seen cnt rest =
     map_option (\<lambda>i. fst (rest ! (i - length seen)))
       (List.find (\<lambda>i. limit \<le>s runningCount (seen @ map snd rest) i)
          [length seen..<length seen + length rest])"
  using assms
proof (induction rest arbitrary: seen cnt)
  case Nil
  then show ?case by simp
next
  case (Cons an rest)
  obtain a n where an: "an = (a, n)" by (cases an)
  let ?all = "seen @ map snd (an # rest)"
  let ?seen1 = "seen @ [n]"
  let ?cnt1 = "cnt + (if counted n then 1 else 0)"
  have all: "?all = ?seen1 @ map snd rest" using an by simp
  have tk: "take (Suc (length seen)) ?all = ?seen1" using an by simp
  have nth: "?all ! length seen = n" using an by simp
  have rc: "runningCount ?all (length seen) = ?cnt1"
    unfolding runningCount_def tk using Cons.prems by simp
  have "[length seen..<length seen + length (an # rest)]
      = length seen # [Suc (length seen)..<length seen + length (an # rest)]"
    by (rule upt_conv_Cons) simp
  then have up: "[length seen..<length seen + length (an # rest)]
      = length seen # [length ?seen1..<length ?seen1 + length rest]"
    by simp
  show ?case
  proof (cases "limit \<le>s ?cnt1")
    case True
    then show ?thesis using an rc up by (simp add: Let_def)
  next
    case False
    let ?cnt2 = "?cnt1 - of_nat (length (filter (\<lambda>x. counted x \<and> ConfirmUntil x = Number (NodeHead n)) ?seen1))"
    have pre: "?cnt2 = of_nat (length (filter counted ?seen1))
       - (\<Sum>k<length ?seen1. of_nat (length (filter (\<lambda>x. counted x \<and> ConfirmUntil x
            = Number (NodeHead ((?seen1 @ map snd rest) ! k))) (take (Suc k) (?seen1 @ map snd rest)))))"
      using Cons.prems tk nth unfolding all [symmetric]
      by (simp del: take_Suc_Cons add: algebra_simps)
    have ih: "confirmWalk limit ?seen1 ?cnt2 rest =
       map_option (\<lambda>i. fst (rest ! (i - length ?seen1)))
         (List.find (\<lambda>i. limit \<le>s runningCount (?seen1 @ map snd rest) i)
            [length ?seen1..<length ?seen1 + length rest])"
      using pre by (rule Cons.IH)
    have shift: "map_option (\<lambda>i. fst (rest ! (i - length ?seen1))) r
        = map_option (\<lambda>i. fst ((an # rest) ! (i - length seen))) r"
      if "\<And>i. r = Some i \<Longrightarrow> length ?seen1 \<le> i" for r
      using that by (cases r) (auto simp: nth_Cons')
    have ge: "\<And>i. List.find (\<lambda>i. limit \<le>s runningCount (?seen1 @ map snd rest) i)
            [length ?seen1..<length ?seen1 + length rest] = Some i \<Longrightarrow> length ?seen1 \<le> i"
    proof -
      fix i
      assume "List.find (\<lambda>i. limit \<le>s runningCount (?seen1 @ map snd rest) i)
            [length ?seen1..<length ?seen1 + length rest] = Some i"
      then have "i \<in> set [length ?seen1..<length ?seen1 + length rest]" by (rule find_Some_mem)
      then show "length ?seen1 \<le> i" by auto
    qed
    have "confirmWalk limit seen cnt (an # rest) = confirmWalk limit ?seen1 ?cnt2 rest"
      using False an by (simp add: Let_def)
    also have "\<dots> = map_option (\<lambda>i. fst ((an # rest) ! (i - length seen)))
         (List.find (\<lambda>i. limit \<le>s runningCount (?seen1 @ map snd rest) i)
            [length ?seen1..<length ?seen1 + length rest])"
      unfolding ih by (rule shift) (rule ge)
    also have "\<dots> = map_option (\<lambda>i. fst ((an # rest) ! (i - length seen)))
         (List.find (\<lambda>i. limit \<le>s runningCount ?all i)
            [length seen..<length seen + length (an # rest)])"
      unfolding up all [symmetric] using False rc by simp
    finally show ?thesis .
  qed
qed

lemma confirmWalk_confirmFirst: "confirmWalk limit [] 0 ns = confirmFirst limit ns"
  using confirmWalk_find [of 0 "[]" ns limit] by (simp add: confirmFirst_def)

text \<open>
  C1. When \<open>root\<close> is an ancestor of \<open>node\<close>, \<open>calculateConfirm(node, root)\<close> returns, and
  its result is that of the walk from \<open>node\<close> towards \<open>root\<close>: it counts the nodes whose
  \<open>ConfirmUntil\<close> is at most their number, subtracts, on descending past a node, the
  contributions counted so far whose \<open>ConfirmUntil\<close> equals that node's number, returns
  the first node at which the running count reaches \<open>NumberOfWitnesses * 2 / 3 + 1\<close>, and
  returns nil when the walk reaches \<open>root\<close> before. The walk has the closed form
  \<open>confirmFirst\<close>: the first node whose running count \<open>runningCount\<close> reaches the limit.
  \<open>updateLib\<close> flushes the returned node and leaves the cache alone on nil.
\<close>

theorem calculateConfirm_walk:
  assumes "ancestorPath h node root ns"
  shows "calculateConfirm sp h (Some node) (Some root)
           = Some (Returns (confirmWalk (go_div (NumberOfWitnesses sp * 2) 3 + 1) [] 0 ns))
     \<and> confirmWalk (go_div (NumberOfWitnesses sp * 2) 3 + 1) [] 0 ns
           = confirmFirst (go_div (NumberOfWitnesses sp * 2) 3 + 1) ns
     \<and> (LinkedRoot bc = Some root \<longrightarrow>
          updateLib LinkedRoot Flush sp h (Some node) bc
            = Some (Returns (case confirmWalk (go_div (NumberOfWitnesses sp * 2) 3 + 1) [] 0 ns of
                               None \<Rightarrow> bc
                             | Some confirmedNode \<Rightarrow> Flush confirmedNode bc)))"
  using calculateConfirm_refines [OF assms, of sp] confirmWalk_confirmFirst
  by (simp add: updateLib_def confirmLimitOf_def split: option.splits)

theorem calculateConfirm_walk_witness:
  "calculateConfirm sample_sp sample_heap (Some 4) (Some 0) = Some (Returns (Some 1))
   \<and> calculateConfirm sample_sp sample_heap (Some 2) (Some 0) = Some (Returns None)
   \<and> updateLib (\<lambda>bc. Some 0) (\<lambda>confirmedNode bc. confirmedNode # bc) sample_sp sample_heap (Some 4) []
       = Some (Returns [1])"
proof -
  have p1: "ancestorPath sample_heap 1 0 [(1, sample_heap 1)]"
    by (rule ancestorPath_step [OF _ _ ancestorPath_root]) (simp_all add: sample_heap_def sample_node_def)
  have p2: "ancestorPath sample_heap 2 0 [(2, sample_heap 2), (1, sample_heap 1)]"
    by (rule ancestorPath_step [OF _ _ p1]) (simp_all add: sample_heap_def sample_node_def)
  have p3: "ancestorPath sample_heap 3 0 [(3, sample_heap 3), (2, sample_heap 2), (1, sample_heap 1)]"
    by (rule ancestorPath_step [OF _ _ p2]) (simp_all add: sample_heap_def sample_node_def)
  have p4: "ancestorPath sample_heap 4 0
      [(4, sample_heap 4), (3, sample_heap 3), (2, sample_heap 2), (1, sample_heap 1)]"
    by (rule ancestorPath_step [OF _ _ p3]) (simp_all add: sample_heap_def sample_node_def)
  have l: "go_div (NumberOfWitnesses sample_sp * 2) 3 + 1 = 3"
    by (simp add: sample_sp_def go_div_def signed_divide_int_def)
  show ?thesis
    using calculateConfirm_walk [OF p4, where sp = sample_sp and LinkedRoot = "\<lambda>bc. Some 0"
        and bc = "[]" and Flush = "\<lambda>confirmedNode bc. confirmedNode # bc"]
      calculateConfirm_walk [OF p2, where sp = sample_sp and LinkedRoot = "\<lambda>bc. Some 0"
        and bc = "[]" and Flush = "\<lambda>confirmedNode bc. confirmedNode # bc"]
    by (simp add: l sample_heap_def sample_node_def counted_def Let_def word_sle_eq)
qed

subsection \<open>The order of the deferred-tx index\<close>

lemma bytesCompare_eq_0: "bytesCompare a b = 0 \<longleftrightarrow> a = b"
  by (induction a b rule: bytesCompare.induct) auto















subsection \<open>A pass of the defer ticker\<close>

lemma tickerLoop_calls_append:
  "tickerLoop H add now k es d p calls =
     (case tickerLoop H add now k es d p [] of (ok, d1, p1, cs) \<Rightarrow> (ok, d1, p1, calls @ cs))"
proof (induction es arbitrary: k d p calls)
  case Nil
  show ?case by simp
next
  case (Cons e es)
  show ?case
  proof (cases "now k <s TxTime e")
    case True
    then show ?thesis by simp
  next
    case False
    obtain err p1 where a: "add (ReferredTx e) p = (err, p1)" by (cases "add (ReferredTx e) p")
    show ?thesis
    proof (cases "err = ErrCacheFull")
      case True
      then show ?thesis using False a by simp
    next
      case ncf: False
      let ?d = "if err = AddNil \<or> err = ErrDupChainTx \<or> err = ErrDupPendingTx
                  then d\<lparr>pool := treeRemove (compareDeferTx H) e (pool d)\<rparr> else d"
      have 1: "tickerLoop H add now k (e # es) d p calls
           = tickerLoop H add now (Suc k) es ?d p1 (calls @ [(ReferredTx e, err)])"
        using False a ncf by simp
      have 2: "tickerLoop H add now k (e # es) d p []
           = tickerLoop H add now (Suc k) es ?d p1 [(ReferredTx e, err)]"
        using False a ncf by simp
      obtain ok d2 p2 cs where r: "tickerLoop H add now (Suc k) es ?d p1 [] = (ok, d2, p2, cs)"
        by (cases "tickerLoop H add now (Suc k) es ?d p1 []")
      have A: "tickerLoop H add now (Suc k) es ?d p1 (calls @ [(ReferredTx e, err)])
           = (ok, d2, p2, (calls @ [(ReferredTx e, err)]) @ cs)"
        using Cons.IH [of "Suc k" ?d p1 "calls @ [(ReferredTx e, err)]"] r by simp
      have B: "tickerLoop H add now (Suc k) es ?d p1 [(ReferredTx e, err)]
           = (ok, d2, p2, [(ReferredTx e, err)] @ cs)"
        using Cons.IH [of "Suc k" ?d p1 "[(ReferredTx e, err)]"] r by simp
      show ?thesis unfolding 1 2 A B by simp
    qed
  qed
qed

lemma tickerLoop_spec:
  assumes "tickerLoop H add now k es d p [] = (ok, d1, p1, cs)"
  shows "length cs \<le> length es
    \<and> map fst cs = map ReferredTx (take (length cs) es)
    \<and> (\<forall>j<length cs. \<not> now (k + j) <s TxTime (es ! j))
    \<and> (\<forall>j<length cs. snd (cs ! j) = ErrCacheFull \<longrightarrow> Suc j = length cs)
    \<and> pool d1 = fold (treeRemove (compareDeferTx H))
                    (map fst (filter (\<lambda>ec. removable (snd (snd ec))) (zip es cs))) (pool d)
    \<and> restarts d1 = restarts d
    \<and> (ok \<longleftrightarrow> (cs \<noteq> [] \<and> snd (last cs) = ErrCacheFull)
               \<or> (length cs < length es \<and> now (k + length cs) <s TxTime (es ! length cs)))
    \<and> nextScheduleTime d1 =
         (if cs \<noteq> [] \<and> snd (last cs) = ErrCacheFull then TxTime (es ! (length cs - 1))
          else if length cs < length es then TxTime (es ! length cs)
          else nextScheduleTime d)
    \<and> (\<not> ok \<longrightarrow> length cs = length es)"
  using assms
proof (induction es arbitrary: k d p ok d1 p1 cs)
  case Nil
  then show ?case by simp
next
  case (Cons e es)
  show ?case
  proof (cases "now k <s TxTime e")
    case True
    then show ?thesis using Cons.prems by auto
  next
    case False
    obtain err p' where a: "add (ReferredTx e) p = (err, p')" by (cases "add (ReferredTx e) p")
    show ?thesis
    proof (cases "err = ErrCacheFull")
      case True
      then show ?thesis using False a Cons.prems by (auto simp: removable_def)
    next
      case ncf: False
      let ?d = "if err = AddNil \<or> err = ErrDupChainTx \<or> err = ErrDupPendingTx
                  then d\<lparr>pool := treeRemove (compareDeferTx H) e (pool d)\<rparr> else d"
      obtain ok' d2 p2 cs' where r: "tickerLoop H add now (Suc k) es ?d p' [] = (ok', d2, p2, cs')"
        by (cases "tickerLoop H add now (Suc k) es ?d p' []")
      have "tickerLoop H add now k (e # es) d p []
           = tickerLoop H add now (Suc k) es ?d p' [(ReferredTx e, err)]"
        using False a ncf by simp
      also have "\<dots> = (ok', d2, p2, (ReferredTx e, err) # cs')"
        using tickerLoop_calls_append [of H add now "Suc k" es ?d p' "[(ReferredTx e, err)]"] r by simp
      finally have eq: "ok = ok'" "d1 = d2" "p1 = p2" "cs = (ReferredTx e, err) # cs'"
        using Cons.prems by simp_all
      note ih = Cons.IH [OF r]
      note ih1 = ih [THEN conjunct1]
      note ih2 = ih [THEN conjunct2, THEN conjunct1]
      note ih3' = ih [THEN conjunct2, THEN conjunct2, THEN conjunct1]
      note ih4' = ih [THEN conjunct2, THEN conjunct2, THEN conjunct2, THEN conjunct1]
      note ih5 = ih [THEN conjunct2, THEN conjunct2, THEN conjunct2, THEN conjunct2, THEN conjunct1]
      note ih6 = ih [THEN conjunct2, THEN conjunct2, THEN conjunct2, THEN conjunct2, THEN conjunct2,
        THEN conjunct1]
      note ih7' = ih [THEN conjunct2, THEN conjunct2, THEN conjunct2, THEN conjunct2, THEN conjunct2,
        THEN conjunct2, THEN conjunct1]
      note ih8' = ih [THEN conjunct2, THEN conjunct2, THEN conjunct2, THEN conjunct2, THEN conjunct2,
        THEN conjunct2, THEN conjunct2, THEN conjunct1]
      note ih9 = ih [THEN conjunct2, THEN conjunct2, THEN conjunct2, THEN conjunct2, THEN conjunct2,
        THEN conjunct2, THEN conjunct2, THEN conjunct2]
      have c1: "length cs \<le> length (e # es)" using ih1 eq by simp
      have c2: "map fst cs = map ReferredTx (take (length cs) (e # es))" using ih2 eq by simp
      have ih3: "\<forall>j<length cs'. \<not> now (Suc k + j) <s TxTime (es ! j)" using ih3' by simp
      have ih4: "\<forall>j<length cs'. snd (cs' ! j) = ErrCacheFull \<longrightarrow> Suc j = length cs'" using ih4' by simp
      have c3: "\<forall>j<length cs. \<not> now (k + j) <s TxTime ((e # es) ! j)"
      proof (intro allI impI)
        fix j assume j: "j < length cs"
        show "\<not> now (k + j) <s TxTime ((e # es) ! j)"
        proof (cases j)
          case 0
          then show ?thesis using False by simp
        next
          case (Suc j')
          then have "j' < length cs'" using j eq by simp
          then have "\<not> now (Suc k + j') <s TxTime (es ! j')" using ih3 by blast
          then show ?thesis using Suc by simp
        qed
      qed
      have c4: "\<forall>j<length cs. snd (cs ! j) = ErrCacheFull \<longrightarrow> Suc j = length cs"
      proof (intro allI impI)
        fix j assume j: "j < length cs" and cf: "snd (cs ! j) = ErrCacheFull"
        show "Suc j = length cs"
        proof (cases j)
          case 0
          then show ?thesis using cf eq ncf by simp
        next
          case (Suc j')
          then have "j' < length cs'" "snd (cs' ! j') = ErrCacheFull" using j cf eq by simp_all
          then have "Suc j' = length cs'" using ih4 by blast
          then show ?thesis using Suc eq by simp
        qed
      qed
      have c5: "pool d1 = fold (treeRemove (compareDeferTx H))
                    (map fst (filter (\<lambda>ec. removable (snd (snd ec))) (zip (e # es) cs))) (pool d)"
        using ih5 eq by (auto simp: removable_def)
      have c6: "restarts d1 = restarts d" using ih6 eq by auto
      have ih7: "ok' \<longleftrightarrow> (cs' \<noteq> [] \<and> snd (last cs') = ErrCacheFull)
               \<or> (length cs' < length es \<and> now (Suc k + length cs') <s TxTime (es ! length cs'))"
        using ih7' by simp
      have ih8: "nextScheduleTime d2 =
         (if cs' \<noteq> [] \<and> snd (last cs') = ErrCacheFull then TxTime (es ! (length cs' - 1))
          else if length cs' < length es then TxTime (es ! length cs')
          else nextScheduleTime ?d)"
        using ih8' by simp
      have nd: "nextScheduleTime ?d = nextScheduleTime d" by simp
      have c7: "ok \<longleftrightarrow> (cs \<noteq> [] \<and> snd (last cs) = ErrCacheFull)
               \<or> (length cs < length (e # es) \<and> now (k + length cs) <s TxTime ((e # es) ! length cs))"
        using ih7 eq ncf by (cases "cs' = []") simp_all
      have c8: "nextScheduleTime d1 =
         (if cs \<noteq> [] \<and> snd (last cs) = ErrCacheFull then TxTime ((e # es) ! (length cs - 1))
          else if length cs < length (e # es) then TxTime ((e # es) ! length cs)
          else nextScheduleTime d)"
        using ih8 eq ncf nd by (cases "cs' = []") (simp_all add: nth_Cons')
      have c9: "\<not> ok \<longrightarrow> length cs = length (e # es)" using ih9 eq by simp
      show ?thesis
        by (intro conjI) (rule c1, rule c2, rule c3, rule c4, rule c5, rule c6, rule c7, rule c8, rule c9)
    qed
  qed
qed

text \<open>
  The result logged for a call is the one \<open>AddDefertx\<close> returns in the state of the
  transaction pool left by the calls before it, and the loop hands back the state after
  its last call.
\<close>

lemma poolAfterCalls_0: "poolAfterCalls A es p 0 = p"
  by (simp add: poolAfterCalls_def)

lemma poolAfterCalls_Suc_Cons:
  "poolAfterCalls A (e # es) p (Suc j) = poolAfterCalls A es (snd (A (ReferredTx e) p)) j"
  by (simp add: poolAfterCalls_def)

lemma tickerLoop_results:
  assumes "tickerLoop H A now k es d p [] = (ok, d1, p1, cs)"
  shows "(\<forall>j<length cs. snd (cs ! j) = fst (A (ReferredTx (es ! j)) (poolAfterCalls A es p j)))
    \<and> p1 = poolAfterCalls A es p (length cs)"
  using assms
proof (induction es arbitrary: k d p ok d1 p1 cs)
  case Nil
  then show ?case by (simp add: poolAfterCalls_0)
next
  case (Cons e es)
  show ?case
  proof (cases "now k <s TxTime e")
    case True
    then show ?thesis using Cons.prems by (auto simp: poolAfterCalls_0)
  next
    case False
    obtain err p' where a: "A (ReferredTx e) p = (err, p')" by (cases "A (ReferredTx e) p")
    show ?thesis
    proof (cases "err = ErrCacheFull")
      case True
      then have "cs = [(ReferredTx e, err)]" "p1 = p'" using False a Cons.prems by auto
      then show ?thesis using a by (simp add: poolAfterCalls_0 poolAfterCalls_Suc_Cons)
    next
      case ncf: False
      let ?d = "if err = AddNil \<or> err = ErrDupChainTx \<or> err = ErrDupPendingTx
                  then d\<lparr>pool := treeRemove (compareDeferTx H) e (pool d)\<rparr> else d"
      obtain ok' d2 p2 cs' where r: "tickerLoop H A now (Suc k) es ?d p' [] = (ok', d2, p2, cs')"
        by (cases "tickerLoop H A now (Suc k) es ?d p' []")
      have "tickerLoop H A now k (e # es) d p []
           = tickerLoop H A now (Suc k) es ?d p' [(ReferredTx e, err)]"
        using False a ncf by simp
      also have "\<dots> = (ok', d2, p2, (ReferredTx e, err) # cs')"
        using tickerLoop_calls_append [of H A now "Suc k" es ?d p' "[(ReferredTx e, err)]"] r by simp
      finally have eq: "p1 = p2" "cs = (ReferredTx e, err) # cs'"
        using Cons.prems by simp_all
      note ih = Cons.IH [OF r]
      have ih1: "\<forall>j<length cs'. snd (cs' ! j) = fst (A (ReferredTx (es ! j)) (poolAfterCalls A es p' j))"
        using ih by (rule conjunct1)
      have ih2: "p2 = poolAfterCalls A es p' (length cs')" using ih by (rule conjunct2)
      have c1: "\<forall>j<length cs. snd (cs ! j)
          = fst (A (ReferredTx ((e # es) ! j)) (poolAfterCalls A (e # es) p j))"
      proof (intro allI impI)
        fix j assume j: "j < length cs"
        show "snd (cs ! j) = fst (A (ReferredTx ((e # es) ! j)) (poolAfterCalls A (e # es) p j))"
        proof (cases j)
          case 0
          then show ?thesis using eq a by (simp add: poolAfterCalls_0)
        next
          case (Suc j')
          then have "j' < length cs'" using j eq by simp
          then have "snd (cs' ! j') = fst (A (ReferredTx (es ! j')) (poolAfterCalls A es p' j'))"
            using ih1 by blast
          then show ?thesis using Suc eq a by (simp add: poolAfterCalls_Suc_Cons)
        qed
      qed
      have c2: "p1 = poolAfterCalls A (e # es) p (length cs)"
        using ih2 eq a by (simp add: poolAfterCalls_Suc_Cons)
      show ?thesis by (intro conjI) (rule c1, rule c2)
    qed
  qed
qed

text \<open>
  On keys in strictly ascending order, removing the keys of some of the entries leaves
  the other entries, in order.
\<close>

lemma compareDeferTx_refl: "compareDeferTx H a a = 0"
  by (simp add: compareDeferTx_def bytesCompare_eq_0)

lemma compareDeferTx_eq_0_sym: "compareDeferTx H a b = 0 \<longleftrightarrow> compareDeferTx H b a = 0"
  by (auto simp add: compareDeferTx_def bytesCompare_eq_0 signed_eq_0_iff)

lemma fold_treeRemove_Cons:
  "\<forall>k\<in>set ks. cmp k e \<noteq> 0 \<Longrightarrow> fold (treeRemove cmp) ks (e # xs) = e # fold (treeRemove cmp) ks xs"
  by (induction ks arbitrary: xs) simp_all

lemma fold_treeRemove_kept:
  assumes "sorted_wrt (\<lambda>a b. compareDeferTx H a b < 0) es" "length cs \<le> length es"
  shows "fold (treeRemove (compareDeferTx H))
           (map fst (filter (\<lambda>ec. removable (snd (snd ec))) (zip es cs))) es
         = map fst (filter (\<lambda>ec. \<not> removable (snd (snd ec))) (zip es cs)) @ drop (length cs) es"
  using assms
proof (induction es arbitrary: cs)
  case Nil
  then show ?case by simp
next
  case (Cons e es)
  show ?case
  proof (cases cs)
    case Nil
    then show ?thesis by simp
  next
    case (Cons c cs')
    have s: "sorted_wrt (\<lambda>a b. compareDeferTx H a b < 0) es" and l: "length cs' \<le> length es"
      and lt: "\<forall>x\<in>set es. compareDeferTx H e x < 0"
      using Cons.prems Cons by simp_all
    note ih = Cons.IH [OF s l]
    show ?thesis
    proof (cases "removable (snd c)")
      case True
      then show ?thesis using ih Cons by (simp add: compareDeferTx_refl)
    next
      case False
      let ?ks = "map fst (filter (\<lambda>ec. removable (snd (snd ec))) (zip es cs'))"
      have "set ?ks \<subseteq> set es" by (auto dest: set_zip_leftD)
      then have "\<forall>k\<in>set ?ks. compareDeferTx H e k \<noteq> 0" using lt by fastforce
      then have ne: "\<forall>k\<in>set ?ks. compareDeferTx H k e \<noteq> 0"
        using compareDeferTx_eq_0_sym [of H] by blast
      have "fold (treeRemove (compareDeferTx H)) ?ks (e # es)
           = e # fold (treeRemove (compareDeferTx H)) ?ks es"
        using ne by (rule fold_treeRemove_Cons)
      then show ?thesis using False Cons ih by simp
    qed
  qed
qed

text \<open>
  C4. A pass of the ticker loop walks the pool in order. The calls of \<open>AddDefertx\<close> it
  makes are, in order, one for each entry of a prefix of the pool, with the referred hash
  of the entry, and each of these entries is due (its trigger time is not after the
  clock read for it). The result logged for a call is what \<open>AddDefertx\<close> returns for that
  hash in the state of the transaction pool that the earlier calls of the pass have left,
  and the pass leaves the transaction pool in the state after its last call. A call that
  returns the cache-full error is the last one: the pass stops there, with the next schedule
  time set to that entry's trigger time. After any other result the pass continues: an
  entry is reached by a call whenever it and all entries before it are due and no call
  before it returns cache-full. The entries removed from the pool are those whose call
  returned nil or a duplicate (chain or pending) error; on a pool in strictly ascending
  order of \<open>compareDeferTx\<close>, as the tree keeps it, the pool after the pass consists of the
  called entries with any other result, the entry of a cache-full call among them, followed
  by the entries that were not reached. The pass does not restart the ticker. When the
  pass stops before the end of the pool without a full cache, the next entry is not yet
  due and its trigger time is the next schedule time. When the pass exhausts the pool, the
  next schedule time is the largest \<open>int64\<close>.
\<close>

theorem deferTicker_pass:
  assumes "tickerPass H AddDefertx now d p = (d1, p1, calls)"
  shows "length calls \<le> length (pool d)
    \<and> map fst calls = map ReferredTx (take (length calls) (pool d))
    \<and> (\<forall>j<length calls. TxTime (pool d ! j) \<le>s now j)
    \<and> (\<forall>j<length calls. snd (calls ! j)
          = fst (AddDefertx (ReferredTx (pool d ! j)) (poolAfterCalls AddDefertx (pool d) p j)))
    \<and> p1 = poolAfterCalls AddDefertx (pool d) p (length calls)
    \<and> (\<forall>j<length calls. snd (calls ! j) = ErrCacheFull \<longrightarrow> Suc j = length calls)
    \<and> (\<forall>j<length (pool d).
          (\<forall>i\<le>j. TxTime (pool d ! i) \<le>s now i)
          \<and> (\<forall>i<j. fst (AddDefertx (ReferredTx (pool d ! i)) (poolAfterCalls AddDefertx (pool d) p i))
                    \<noteq> ErrCacheFull)
          \<longrightarrow> j < length calls)
    \<and> pool d1 = fold (treeRemove (compareDeferTx H))
                    (map fst (filter (\<lambda>ec. removable (snd (snd ec))) (zip (pool d) calls))) (pool d)
    \<and> (sorted_wrt (\<lambda>a b. compareDeferTx H a b < 0) (pool d)
         \<longrightarrow> pool d1 = map fst (filter (\<lambda>ec. \<not> removable (snd (snd ec))) (zip (pool d) calls))
                         @ drop (length calls) (pool d))
    \<and> restarts d1 = restarts d
    \<and> nextScheduleTime d1 =
         (if calls \<noteq> [] \<and> snd (last calls) = ErrCacheFull then TxTime (pool d ! (length calls - 1))
          else if length calls < length (pool d) then TxTime (pool d ! length calls)
          else MaxInt64)
    \<and> (length calls < length (pool d) \<and> (calls = [] \<or> snd (last calls) \<noteq> ErrCacheFull)
         \<longrightarrow> now (length calls) <s TxTime (pool d ! length calls))"
proof -
  obtain ok d2 p2 cs where r0: "tickerLoop H AddDefertx now 0 (pool d) d p [] = (ok, d2, p2, cs)"
    by (cases "tickerLoop H AddDefertx now 0 (pool d) d p []")
  have "(d1, p1, calls) = (if \<not> ok then (d2\<lparr>nextScheduleTime := MaxInt64\<rparr>, p2, cs) else (d2, p2, cs))"
    using assms r0 by (simp add: tickerPass_def)
  then have d1: "d1 = (if \<not> ok then d2\<lparr>nextScheduleTime := MaxInt64\<rparr> else d2)"
    and pc: "p1 = p2" "calls = cs"
    by (simp_all split: if_splits)
  have r: "tickerLoop H AddDefertx now 0 (pool d) d p [] = (ok, d2, p1, calls)"
    using r0 pc by simp
  note sp = tickerLoop_spec [OF r]
  note sp1 = sp [THEN conjunct1]
  note sp2 = sp [THEN conjunct2, THEN conjunct1]
  note sp3 = sp [THEN conjunct2, THEN conjunct2, THEN conjunct1]
  note sp4 = sp [THEN conjunct2, THEN conjunct2, THEN conjunct2, THEN conjunct1]
  note sp5 = sp [THEN conjunct2, THEN conjunct2, THEN conjunct2, THEN conjunct2, THEN conjunct1]
  note sp6 = sp [THEN conjunct2, THEN conjunct2, THEN conjunct2, THEN conjunct2, THEN conjunct2,
    THEN conjunct1]
  note sp7 = sp [THEN conjunct2, THEN conjunct2, THEN conjunct2, THEN conjunct2, THEN conjunct2,
    THEN conjunct2, THEN conjunct1]
  note sp8 = sp [THEN conjunct2, THEN conjunct2, THEN conjunct2, THEN conjunct2, THEN conjunct2,
    THEN conjunct2, THEN conjunct2, THEN conjunct1]
  note sp9 = sp [THEN conjunct2, THEN conjunct2, THEN conjunct2, THEN conjunct2, THEN conjunct2,
    THEN conjunct2, THEN conjunct2, THEN conjunct2]
  note rs = tickerLoop_results [OF r]
  note rs1 = rs [THEN conjunct1]
  note rs2 = rs [THEN conjunct2]
  have c3: "\<forall>j<length calls. TxTime (pool d ! j) \<le>s now j"
    using sp3 by (simp add: word_sle_eq word_sless_alt linorder_not_less)
  have ok_iff: "ok \<longleftrightarrow> (calls \<noteq> [] \<and> snd (last calls) = ErrCacheFull)
               \<or> (length calls < length (pool d) \<and> now (length calls) <s TxTime (pool d ! length calls))"
    using sp7 by simp
  have nx: "nextScheduleTime d2 =
         (if calls \<noteq> [] \<and> snd (last calls) = ErrCacheFull then TxTime (pool d ! (length calls - 1))
          else if length calls < length (pool d) then TxTime (pool d ! length calls)
          else nextScheduleTime d)"
    using sp8 by simp
  have c5: "pool d1 = fold (treeRemove (compareDeferTx H))
                    (map fst (filter (\<lambda>ec. removable (snd (snd ec))) (zip (pool d) calls))) (pool d)"
    using sp5 d1 by simp
  have c5s: "sorted_wrt (\<lambda>a b. compareDeferTx H a b < 0) (pool d)
         \<longrightarrow> pool d1 = map fst (filter (\<lambda>ec. \<not> removable (snd (snd ec))) (zip (pool d) calls))
                         @ drop (length calls) (pool d)"
  proof
    assume s: "sorted_wrt (\<lambda>a b. compareDeferTx H a b < 0) (pool d)"
    show "pool d1 = map fst (filter (\<lambda>ec. \<not> removable (snd (snd ec))) (zip (pool d) calls))
                         @ drop (length calls) (pool d)"
      unfolding c5 using s sp1 by (rule fold_treeRemove_kept)
  qed
  have cr: "restarts d1 = restarts d" using sp6 d1 by simp
  have c6: "nextScheduleTime d1 =
         (if calls \<noteq> [] \<and> snd (last calls) = ErrCacheFull then TxTime (pool d ! (length calls - 1))
          else if length calls < length (pool d) then TxTime (pool d ! length calls)
          else MaxInt64)"
  proof (cases ok)
    case True
    then show ?thesis using nx d1 ok_iff by auto
  next
    case False
    then have "length calls = length (pool d)" using sp9 by simp
    then show ?thesis using False d1 ok_iff by auto
  qed
  have c7: "length calls < length (pool d) \<and> (calls = [] \<or> snd (last calls) \<noteq> ErrCacheFull)
         \<longrightarrow> now (length calls) <s TxTime (pool d ! length calls)"
  proof (cases ok)
    case True
    then show ?thesis using ok_iff by auto
  next
    case False
    then have "length calls = length (pool d)" using sp9 by simp
    then show ?thesis by simp
  qed
  have cc: "\<forall>j<length (pool d).
          (\<forall>i\<le>j. TxTime (pool d ! i) \<le>s now i)
          \<and> (\<forall>i<j. fst (AddDefertx (ReferredTx (pool d ! i)) (poolAfterCalls AddDefertx (pool d) p i))
                    \<noteq> ErrCacheFull)
          \<longrightarrow> j < length calls"
  proof (intro allI impI)
    fix j
    assume j: "j < length (pool d)"
      and h: "(\<forall>i\<le>j. TxTime (pool d ! i) \<le>s now i)
          \<and> (\<forall>i<j. fst (AddDefertx (ReferredTx (pool d ! i)) (poolAfterCalls AddDefertx (pool d) p i))
                    \<noteq> ErrCacheFull)"
    have due: "\<forall>i\<le>j. TxTime (pool d ! i) \<le>s now i" using h by (rule conjunct1)
    have ncf: "\<forall>i<j. fst (AddDefertx (ReferredTx (pool d ! i)) (poolAfterCalls AddDefertx (pool d) p i))
                    \<noteq> ErrCacheFull" using h by (rule conjunct2)
    show "j < length calls"
    proof (rule ccontr)
      assume "\<not> j < length calls"
      then have n: "length calls \<le> j" by simp
      then have lt: "length calls < length (pool d)" using j by simp
      have "TxTime (pool d ! length calls) \<le>s now (length calls)" using due n by blast
      then have nd: "\<not> now (length calls) <s TxTime (pool d ! length calls)"
        by (simp add: word_sle_eq word_sless_alt)
      have cf: "calls \<noteq> [] \<and> snd (last calls) = ErrCacheFull" using c7 lt nd by blast
      then have ne: "calls \<noteq> []" and l: "snd (last calls) = ErrCacheFull" by simp_all
      have i: "length calls - 1 < length calls" using ne by simp
      have "last calls = calls ! (length calls - 1)" using ne by (rule last_conv_nth)
      then have "fst (AddDefertx (ReferredTx (pool d ! (length calls - 1)))
                   (poolAfterCalls AddDefertx (pool d) p (length calls - 1))) = ErrCacheFull"
        using rs1 i l by metis
      moreover have "length calls - 1 < j" using n ne by (cases calls) simp_all
      ultimately show False using ncf by blast
    qed
  qed
  show ?thesis
    by (intro conjI) (rule sp1, rule sp2, rule c3, rule rs1, rule rs2, rule sp4, rule cc, rule c5,
      rule c5s, rule cr, rule c6, rule c7)
qed

theorem deferTicker_pass_witness:
  "tickerPass sample_hash sample_AddDefertx (\<lambda>k. 100)
      \<lparr>pool = [sample_entry 10 ''a'', sample_entry 20 ''bad'', sample_entry 30 ''dup'',
               sample_entry 40 ''full'', sample_entry 50 ''z''],
        nextScheduleTime = 10, restarts = 0\<rparr> 0
   = (\<lparr>pool = [sample_entry 20 ''bad'', sample_entry 40 ''full'', sample_entry 50 ''z''],
        nextScheduleTime = 40, restarts = 0\<rparr>, 1,
      [(''a'', AddNil), (''bad'', ErrAddOther ''verify failed''), (''dup'', ErrDupChainTx), (''full'', ErrCacheFull)])
   \<and> sorted_wrt (\<lambda>a b. compareDeferTx sample_hash a b < 0)
        [sample_entry 10 ''a'', sample_entry 20 ''bad'', sample_entry 30 ''dup'',
         sample_entry 40 ''full'', sample_entry 50 ''z'']
   \<and> map (poolAfterCalls sample_AddDefertx
        [sample_entry 10 ''a'', sample_entry 20 ''bad'', sample_entry 30 ''dup'',
         sample_entry 40 ''full'', sample_entry 50 ''z''] 0) [0, 1, 2, 3, 4] = [0, 1, 1, 1, 1]
   \<and> sample_AddDefertx ''full'' 1 = (ErrCacheFull, 1)
   \<and> fst (tickerPass sample_hash sample_AddDefertx (\<lambda>k. 100)
      \<lparr>pool = [sample_entry 10 ''a'', sample_entry 30 ''dup''], nextScheduleTime = 10, restarts = 0\<rparr> 0)
     = \<lparr>pool = [], nextScheduleTime = MaxInt64, restarts = 0\<rparr>
   \<and> fst (tickerPass sample_hash sample_AddDefertx (\<lambda>k. 15)
      \<lparr>pool = [sample_entry 10 ''a'', sample_entry 30 ''dup''], nextScheduleTime = 10, restarts = 0\<rparr> 0)
     = \<lparr>pool = [sample_entry 30 ''dup''], nextScheduleTime = 30, restarts = 0\<rparr>"
proof -
  have e: "tickerPass sample_hash sample_AddDefertx (\<lambda>k. 100)
      \<lparr>pool = [sample_entry 10 ''a'', sample_entry 20 ''bad'', sample_entry 30 ''dup'',
               sample_entry 40 ''full'', sample_entry 50 ''z''],
        nextScheduleTime = 10, restarts = 0\<rparr> 0
   = (\<lparr>pool = [sample_entry 20 ''bad'', sample_entry 40 ''full'', sample_entry 50 ''z''],
        nextScheduleTime = 40, restarts = 0\<rparr>, 1,
      [(''a'', AddNil), (''bad'', ErrAddOther ''verify failed''), (''dup'', ErrDupChainTx), (''full'', ErrCacheFull)])"
    by (simp add: tickerPass_def sample_entry_def sample_AddDefertx_def sample_hash_def compareDeferTx_def
      word_sless_alt)
  have s: "sorted_wrt (\<lambda>a b. compareDeferTx sample_hash a b < 0)
        [sample_entry 10 ''a'', sample_entry 20 ''bad'', sample_entry 30 ''dup'',
         sample_entry 40 ''full'', sample_entry 50 ''z'']"
    by (simp add: sample_entry_def compareDeferTx_def)
  have q: "map (poolAfterCalls sample_AddDefertx
        [sample_entry 10 ''a'', sample_entry 20 ''bad'', sample_entry 30 ''dup'',
         sample_entry 40 ''full'', sample_entry 50 ''z''] 0) [0, 1, 2, 3, 4] = [0, 1, 1, 1, 1]"
    by (simp add: poolAfterCalls_def sample_entry_def sample_AddDefertx_def numeral_2_eq_2 numeral_3_eq_3
      eval_nat_numeral)
  have f: "sample_AddDefertx ''full'' 1 = (ErrCacheFull, 1)" by (simp add: sample_AddDefertx_def)
  show ?thesis
    using deferTicker_pass [OF e] s q f
    by (simp add: tickerPass_def sample_entry_def sample_AddDefertx_def sample_hash_def compareDeferTx_def
      word_sless_alt)
qed

subsection \<open>\<open>SendRawTx\<close>\<close>

text \<open>
  C6, as the specification states it, fails: for a nil request \<open>SendRawTx\<close> returns an
  error although nothing is decoded and \<open>AddTx\<close> is not called.
\<close>

theorem SendRawTx_result_counterexample:
  "fst (SendRawTx sample_decode sample_AddTx sample_hash \<lparr>txpool = [], chain = [0::nat]\<rparr> None)
     = Inl (Errorf ''argument cannot be nil pointer'')"
  by (simp add: SendRawTx_def)

text \<open>
  C6, amended. \<open>SendRawTx\<close> returns an error if and only if the request is nil, decoding
  the raw bytes fails, or \<open>AddTx\<close> returns one of the five admission errors; the error
  for an admission error is \<open>tx err:\<close> followed by the name of its kind, the error for a
  failed decoding is the decoder's; otherwise the response holds the hash of the
  transaction. A nil request and a failed decoding leave the server as it was, and no
  call changes the chain: only \<open>AddTx\<close> acts, on the pool.
\<close>

theorem SendRawTx_result:
  "(isl (fst (SendRawTx decode AddTx H s rawTx))
      \<longleftrightarrow> rawTx = None
         \<or> (\<exists>req. rawTx = Some req
              \<and> (isl (decode (Data req))
                 \<or> (\<exists>trx. decode (Data req) = Inr trx
                      \<and> fst (AddTx trx (txpool s))
                          \<in> {TimeError, VerifyError, DupError, GasPriceError, CacheFullError}))))
   \<and> (rawTx = None
        \<longrightarrow> SendRawTx decode AddTx H s rawTx = (Inl (Errorf ''argument cannot be nil pointer''), s))
   \<and> (\<forall>req err. rawTx = Some req \<and> decode (Data req) = Inl err
        \<longrightarrow> SendRawTx decode AddTx H s rawTx = (Inl (Foreign err), s))
   \<and> (\<forall>req trx ret p1. rawTx = Some req \<and> decode (Data req) = Inr trx \<and> AddTx trx (txpool s) = (ret, p1)
        \<longrightarrow> SendRawTx decode AddTx H s rawTx
             = (if ret = Success then Inr \<lparr>Hash = H trx\<rparr> else Inl (Errorf (''tx err:'' @ admissionName ret)),
                s\<lparr>txpool := p1\<rparr>))
   \<and> chain (snd (SendRawTx decode AddTx H s rawTx)) = chain s"
proof -
  show ?thesis
  proof (cases rawTx)
    case None
    then show ?thesis by (simp add: SendRawTx_def)
  next
    case (Some req)
    show ?thesis
    proof (cases "decode (Data req)")
      case (Inl err)
      then show ?thesis using Some by (simp add: SendRawTx_def)
    next
      case (Inr trx)
      obtain ret p1 where a: "AddTx trx (txpool s) = (ret, p1)" by (cases "AddTx trx (txpool s)")
      show ?thesis using Some Inr a by (cases ret) (simp_all add: SendRawTx_def admissionName_def)
    qed
  qed
qed

theorem SendRawTx_result_witness:
  "SendRawTx sample_decode sample_AddTx sample_hash \<lparr>txpool = [''t1''], chain = [0::nat]\<rparr>
      (Some \<lparr>Data = ''t1''\<rparr>)
     = (Inl (Errorf ''tx err:DupError''), \<lparr>txpool = [''t1''], chain = [0]\<rparr>)
   \<and> SendRawTx sample_decode sample_AddTx sample_hash \<lparr>txpool = [''t1''], chain = [0::nat]\<rparr>
      (Some \<lparr>Data = ''t2''\<rparr>)
     = (Inr \<lparr>Hash = ''t2''\<rparr>, \<lparr>txpool = [''t2'', ''t1''], chain = [0]\<rparr>)
   \<and> SendRawTx sample_decode sample_AddTx sample_hash \<lparr>txpool = [''t1''], chain = [0::nat]\<rparr>
      (Some \<lparr>Data = ''garbage''\<rparr>)
     = (Inl (Foreign ''proto: cannot parse''), \<lparr>txpool = [''t1''], chain = [0]\<rparr>)"
  using SendRawTx_result [of sample_decode sample_AddTx sample_hash
      "\<lparr>txpool = [''t1''], chain = [0::nat]\<rparr>" "Some \<lparr>Data = ''t1''\<rparr>"]
    SendRawTx_result [of sample_decode sample_AddTx sample_hash
      "\<lparr>txpool = [''t1''], chain = [0::nat]\<rparr>" "Some \<lparr>Data = ''t2''\<rparr>"]
    SendRawTx_result [of sample_decode sample_AddTx sample_hash
      "\<lparr>txpool = [''t1''], chain = [0::nat]\<rparr>" "Some \<lparr>Data = ''garbage''\<rparr>"]
  by (simp add: sample_decode_def sample_AddTx_def sample_hash_def admissionName_def)

subsection \<open>\<open>Subscribe\<close>\<close>

lemma subscribeLoop_prefix:
  assumes "\<forall>t\<in>set pre. \<not> timer_taken t \<and> (\<forall>ev. head_event t = Some ev \<longrightarrow> send ev = None)"
  shows "subscribeLoop send (pre @ rest) sent = subscribeLoop send rest (sent @ received pre)"
  using assms
proof (induction pre arbitrary: sent)
  case Nil
  then show ?case by (simp add: received_def List.map_filter_simps)
next
  case (Cons t pre)
  have nt: "\<not> (minute_ns \<le> elapsed t \<and> (head_event t = None \<or> picks_timer t))"
    using Cons.prems by (simp add: timer_taken_def)
  have ih: "\<And>sent. subscribeLoop send (pre @ rest) sent = subscribeLoop send rest (sent @ received pre)"
    using Cons.IH Cons.prems by simp
  show ?case
  proof (cases "head_event t")
    case None
    then show ?thesis using nt ih by (simp add: received_def List.map_filter_simps)
  next
    case (Some ev)
    then have "send ev = None" using Cons.prems by simp
    then show ?thesis using nt ih Some by (auto simp add: received_def List.map_filter_simps)
  qed
qed

lemma subscribeLoop_Timeup:
  "fst (subscribeLoop send turns sent) = Some Timeup \<Longrightarrow> \<exists>t\<in>set turns. minute_ns \<le> elapsed t"
proof (induction turns arbitrary: sent)
  case Nil
  then show ?case by simp
next
  case (Cons t turns)
  show ?case
  proof (cases "minute_ns \<le> elapsed t")
    case True
    then show ?thesis by simp
  next
    case False
    then have "\<exists>sent'. fst (subscribeLoop send turns sent') = Some Timeup"
      using Cons.prems by (auto split: option.splits)
    then show ?thesis using Cons.IH by auto
  qed
qed

text \<open>
  C8, as the specification states it, fails: the ticker is made once, before the loop, and
  nothing resets it when an event is delivered. Below, an event is sent 59.9 seconds after
  the call started, and the stream ends a tenth of a second later.
\<close>

theorem Subscribe_stream_counterexample:
  "Subscribe sample_send
     [\<lparr>elapsed = 59900000000, head_event = Some ''e1'', picks_timer = False\<rparr>,
      \<lparr>elapsed = 60000000000, head_event = None, picks_timer = False\<rparr>]
     = (Some Timeup, [''e1''])
   \<and> (60000000000::nat) - 59900000000 < minute_ns"
  by (simp add: Subscribe_def minute_ns_def sample_send_def)

text \<open>
  C8, amended. The stream of a \<open>Subscribe\<close> call ends when \<open>select\<close> takes the tick of the
  one-minute ticker made at the start of the call, which cannot happen before one minute
  has elapsed since then and happens at the first turn after that with no event waiting
  (or with \<open>select\<close> choosing the ticker), whatever has been delivered before; or when
  sending an event fails. Until one of the two occurs the stream goes on, and every event
  received from the subscription channel has been sent to the client, in order.
\<close>

theorem Subscribe_stream:
  assumes "\<forall>t\<in>set pre. \<not> timer_taken t \<and> (\<forall>ev. head_event t = Some ev \<longrightarrow> send ev = None)"
  shows "Subscribe send pre = (None, received pre)
     \<and> (timer_taken t \<longrightarrow> Subscribe send (pre @ t # post) = (Some Timeup, received pre))
     \<and> (\<not> timer_taken t \<and> head_event t = Some ev \<and> send ev = Some err
          \<longrightarrow> Subscribe send (pre @ t # post) = (Some (SendFailed err), received pre))
     \<and> (fst (Subscribe send turns) = Some Timeup \<longrightarrow> (\<exists>t\<in>set turns. minute_ns \<le> elapsed t))"
proof -
  have a: "Subscribe send pre = (None, received pre)"
    using subscribeLoop_prefix [OF assms, of "[]" "[]"] by (simp add: Subscribe_def)
  have b: "timer_taken t \<longrightarrow> Subscribe send (pre @ t # post) = (Some Timeup, received pre)"
    using subscribeLoop_prefix [OF assms, of "t # post" "[]"]
    by (simp add: Subscribe_def timer_taken_def)
  have c: "\<not> timer_taken t \<and> head_event t = Some ev \<and> send ev = Some err
          \<longrightarrow> Subscribe send (pre @ t # post) = (Some (SendFailed err), received pre)"
    using subscribeLoop_prefix [OF assms, of "t # post" "[]"]
    by (simp add: Subscribe_def timer_taken_def)
  have d: "fst (Subscribe send turns) = Some Timeup \<longrightarrow> (\<exists>t\<in>set turns. minute_ns \<le> elapsed t)"
    using subscribeLoop_Timeup [of send turns "[]"] by (simp add: Subscribe_def)
  show ?thesis by (intro conjI) (rule a, rule b, rule c, rule d)
qed

theorem Subscribe_stream_witness:
  "Subscribe sample_send
     [\<lparr>elapsed = 10, head_event = Some ''e1'', picks_timer = False\<rparr>,
      \<lparr>elapsed = 20, head_event = None, picks_timer = False\<rparr>,
      \<lparr>elapsed = 60000000005, head_event = Some ''e2'', picks_timer = False\<rparr>]
     = (None, [''e1'', ''e2''])
   \<and> Subscribe sample_send
     [\<lparr>elapsed = 10, head_event = Some ''e1'', picks_timer = False\<rparr>,
      \<lparr>elapsed = 20, head_event = None, picks_timer = False\<rparr>,
      \<lparr>elapsed = 60000000005, head_event = Some ''e2'', picks_timer = False\<rparr>,
      \<lparr>elapsed = 60000000009, head_event = Some ''e4'', picks_timer = True\<rparr>]
     = (Some Timeup, [''e1'', ''e2''])
   \<and> Subscribe sample_send
     [\<lparr>elapsed = 10, head_event = Some ''e1'', picks_timer = False\<rparr>,
      \<lparr>elapsed = 20, head_event = None, picks_timer = False\<rparr>,
      \<lparr>elapsed = 60000000005, head_event = Some ''e2'', picks_timer = False\<rparr>,
      \<lparr>elapsed = 60000000007, head_event = Some ''e3'', picks_timer = False\<rparr>,
      \<lparr>elapsed = 60000000009, head_event = Some ''e4'', picks_timer = False\<rparr>]
     = (Some (SendFailed ''transport is closing''), [''e1'', ''e2''])"
proof -
  let ?pre = "[\<lparr>elapsed = 10, head_event = Some ''e1'', picks_timer = False\<rparr>,
      \<lparr>elapsed = 20, head_event = None, picks_timer = False\<rparr>,
      \<lparr>elapsed = 60000000005, head_event = Some ''e2'', picks_timer = False\<rparr>]"
  have h: "\<forall>t\<in>set ?pre. \<not> timer_taken t \<and> (\<forall>ev. head_event t = Some ev \<longrightarrow> sample_send ev = None)"
    by (simp add: timer_taken_def minute_ns_def sample_send_def)
  have e3: "sample_send ''e3'' = Some ''transport is closing''" by (simp add: sample_send_def)
  show ?thesis
    using Subscribe_stream [OF h,
        where t = "\<lparr>elapsed = 60000000009, head_event = Some ''e4'', picks_timer = True\<rparr>"
          and post = "[]" and turns = "[]"]
      Subscribe_stream [OF h,
        where t = "\<lparr>elapsed = 60000000007, head_event = Some ''e3'', picks_timer = False\<rparr>"
          and ev = "''e3''" and err = "''transport is closing''" and turns = "[]"
          and post = "[\<lparr>elapsed = 60000000009, head_event = Some ''e4'', picks_timer = False\<rparr>]"]
    by (simp add: e3 timer_taken_def minute_ns_def received_def List.map_filter_simps)
qed

end
